theory Spec2Isabelle
  imports Main "HOL-Library.AList"
begin

section \<open>Data model\<close>

text \<open>
  A \<open>Buffer\<close> is its list of bytes. Timestamps are milliseconds since the epoch, as
  \<open>Date.now()\<close> gives them. Sizes and counters are JavaScript numbers holding
  non-negative integers; \<open>currentSize\<close> is an \<open>int\<close> because the code subtracts from it.
  The digest of \<open>crypto.createHash\<close> is kept symbolic: the hash of a buffer is the
  constructor applied to the buffer, so equal digests mean equal contents.
\<close>

type_synonym buffer = "nat list"

datatype digest = Md5Hex buffer

text \<open>\<open>CacheEntry\<close> of \<open>types/index.ts\<close>; the two optional fields are options.\<close>

record CacheEntry =
  key :: string
  path :: string
  size_bytes :: nat
  contentType :: string
  etag :: digest
  lastModified :: nat
  expiresAt :: nat
  accessCount :: nat
  compressed :: bool
  encodings :: "string list"
  isTransformed :: "bool option"
  originalKey :: "string option"

text \<open>\<open>CacheMetadata\<close>, the content of the index file \<open>.cache-metadata.json\<close>.\<close>

record CacheMetadata =
  version :: string
  lastSaved :: nat
  entries :: "CacheEntry list"
  savedAccessLog :: "(string \<times> nat) list"

text \<open>
  The index file on disk: absent, present but not readable as JSON (\<open>fs.readJson\<close>
  throws), or holding a metadata object.
\<close>

datatype metafile = NoFile | Unreadable | Stored CacheMetadata

text \<open>
  The state of a \<open>CacheManager\<close> together with the part of the file system it works on.

  \<^item> \<open>cache\<close> is the data of the \<open>NodeCache\<close> instance: for each key the pair \<open>(t, v)\<close> of
    the time the key expires (\<open>0\<close>: never) and the stored value, in insertion order.
    \<open>stdTTL\<close> is the option of that name (seconds). The instance is created with
    \<open>useClones: false\<close>, so it stores the entry objects themselves.
  \<^item> \<open>accessLog\<close> is the \<open>Map\<close> of that name, in insertion order.
  \<^item> \<open>files\<close> are the byte files by normalised path, \<open>faulty\<close> the paths on which
    \<open>fs.writeFile\<close> and \<open>fs.remove\<close> throw (a path in a directory that does not exist, the
    path of a directory), \<open>metadataFile\<close> the index file (kept apart from the byte
    files, which is what the scan of \<open>loadExistingCache\<close> does by skipping its name).
\<close>

record CacheManager =
  cache :: "(string \<times> nat \<times> CacheEntry) list"
  stdTTL :: nat
  cacheDir :: string
  maxSize :: int
  currentSize :: int
  accessLog :: "(string \<times> nat) list"
  isShuttingDown :: bool
  files :: "(string \<times> buffer) list"
  faulty :: "string list"
  metadataFile :: metafile

datatype cache_error =
    ShuttingDown        \<comment> \<open>\<open>Cache manager is shutting down\<close>\<close>
  | FileTooLarge        \<comment> \<open>\<open>File too large for cache\<close>\<close>
  | WriteFailed         \<comment> \<open>\<open>Failed to write cache file\<close>\<close>
  | InvalidRegex        \<comment> \<open>\<open>Invalid regex pattern\<close>\<close>

section \<open>The in-memory cache (\<open>node-cache\<close>)\<close>

text \<open>
  The three operations of the \<open>node-cache\<close> package that the manager uses, as the package
  documents them. \<open>set\<close> without a ttl stores the value with the standard ttl: the key
  expires at \<open>now + stdTTL * 1000\<close>, or never when \<open>stdTTL\<close> is \<open>0\<close>; an existing key keeps
  its place. \<open>get\<close> checks the expiry time: an expired key is deleted, the \<open>expired\<close> event
  is emitted and the result is \<open>undefined\<close>. \<open>keys\<close> lists the stored keys without
  checking them. The periodic sweep of the package (\<open>checkperiod\<close>) and the save timer
  of the manager are not modelled: a key that has expired is removed at its next \<open>get\<close>.
\<close>

definition livetime :: "nat \<Rightarrow> nat \<Rightarrow> nat" where
  "livetime now ttl = (if ttl = 0 then 0 else now + ttl * 1000)"

definition nc_set ::
  "nat \<Rightarrow> nat \<Rightarrow> string \<Rightarrow> 'v \<Rightarrow> (string \<times> nat \<times> 'v) list \<Rightarrow> (string \<times> nat \<times> 'v) list" where
  "nc_set now ttl k v d = AList.update k (livetime now ttl, v) d"

text \<open>The result of \<open>nc_get\<close>: the value, the data afterwards, and whether \<open>expired\<close> fired.\<close>

definition nc_get ::
  "nat \<Rightarrow> string \<Rightarrow> (string \<times> nat \<times> 'v) list \<Rightarrow> 'v option \<times> (string \<times> nat \<times> 'v) list \<times> bool" where
  "nc_get now k d =
     (case map_of d k of
        None \<Rightarrow> (None, d, False)
      | Some (t, v) \<Rightarrow>
          if t \<noteq> 0 \<and> t < now then (None, AList.delete k d, True)
          else (Some v, d, False))"

definition nc_keys :: "(string \<times> nat \<times> 'v) list \<Rightarrow> string list" where
  "nc_keys d = map fst d"

section \<open>The cache manager\<close>

text \<open>
  \<open>path.join\<close> (POSIX) of the cache directory and a key, with the normalisation it
  applies. \<open>segments\<close> splits a path at its slashes; \<open>normalizeString\<close> goes through the
  segments with the segments kept so far (last one first): empty segments and \<open>.\<close> are
  skipped, \<open>..\<close> removes the last kept segment unless there is none or it is \<open>..\<close> itself,
  in which case \<open>..\<close> is kept when the path is relative. The byte files of the state are
  named by the normalised paths that \<open>path.join\<close> returns.
\<close>

fun segments :: "string \<Rightarrow> string list" where
  "segments [] = [[]]"
| "segments (c # cs) =
     (if c = CHR ''/'' then [] # segments cs
      else (case segments cs of seg # segs \<Rightarrow> (c # seg) # segs | [] \<Rightarrow> [[c]]))"

fun normalizeString :: "bool \<Rightarrow> string list \<Rightarrow> string list \<Rightarrow> string list" where
  "normalizeString allowAboveRoot res [] = rev res"
| "normalizeString allowAboveRoot res (seg # segs) =
     (if seg = [] \<or> seg = ''.'' then normalizeString allowAboveRoot res segs
      else if seg = ''..'' then
        (if res \<noteq> [] \<and> hd res \<noteq> ''..'' then normalizeString allowAboveRoot (tl res) segs
         else if allowAboveRoot then normalizeString allowAboveRoot (''..'' # res) segs
         else normalizeString allowAboveRoot res segs)
      else normalizeString allowAboveRoot (seg # res) segs)"

text \<open>\<open>Array.prototype.join\<close>.\<close>

fun join :: "string \<Rightarrow> string list \<Rightarrow> string" where
  "join sep [] = []"
| "join sep [x] = x"
| "join sep (x # y # ys) = x @ sep @ join sep (y # ys)"

definition normalize :: "string \<Rightarrow> string" where
  "normalize p =
     (if p = [] then ''.''
      else
        let isAbsolute = (hd p = CHR ''/'');
            trailingSeparator = (last p = CHR ''/'');
            q = join ''/'' (normalizeString (\<not> isAbsolute) [] (segments p))
        in if q = [] then (if isAbsolute then ''/'' else if trailingSeparator then ''./'' else ''.'')
           else (if isAbsolute then ''/'' else []) @ q @ (if trailingSeparator then ''/'' else []))"

definition joinPath :: "string \<Rightarrow> string \<Rightarrow> string" where
  "joinPath dir name =
     (let joined = (if dir = [] then name else if name = [] then dir else dir @ ''/'' @ name)
      in if joined = [] then ''.'' else normalize joined)"

definition metadataPath :: "CacheManager \<Rightarrow> string" where
  "metadataPath s = joinPath (cacheDir s) ''.cache-metadata.json''"

definition cache_set :: "nat \<Rightarrow> string \<Rightarrow> CacheEntry \<Rightarrow> CacheManager \<Rightarrow> CacheManager" where
  "cache_set now k e s = s\<lparr>cache := nc_set now (stdTTL s) k e (cache s)\<rparr>"

text \<open>
  \<open>handleCacheExpired\<close>, the listener of the \<open>expired\<close> event. It runs when the key has
  already been deleted from the cache, looks the key up again, and does its clean-up only
  if that lookup finds an entry.
\<close>

definition handleCacheExpired :: "nat \<Rightarrow> string \<Rightarrow> CacheManager \<Rightarrow> CacheManager" where
  "handleCacheExpired now k s =
     (case nc_get now k (cache s) of
        (None, d, _) \<Rightarrow> s\<lparr>cache := d\<rparr>
      | (Some entry, d, _) \<Rightarrow>
          if path entry \<in> set (faulty s) then s\<lparr>cache := d\<rparr>
          else s\<lparr>cache := d,
                 files := AList.delete (path entry) (files s),
                 currentSize := currentSize s - int (size_bytes entry),
                 accessLog := AList.delete k (accessLog s)\<rparr>)"

text \<open>\<open>this.cache.get(key)\<close> with the listener attached.\<close>

definition cache_get :: "nat \<Rightarrow> string \<Rightarrow> CacheManager \<Rightarrow> CacheEntry option \<times> CacheManager" where
  "cache_get now k s =
     (case nc_get now k (cache s) of
        (r, d, fired) \<Rightarrow>
          (r, if fired then handleCacheExpired now k (s\<lparr>cache := d\<rparr>) else s\<lparr>cache := d\<rparr>))"

definition cm_get :: "nat \<Rightarrow> string \<Rightarrow> CacheManager \<Rightarrow> CacheEntry option \<times> CacheManager" where
  "cm_get now k s =
     (if isShuttingDown s then (None, s)
      else case cache_get now k s of
        (None, s1) \<Rightarrow> (None, s1)
      | (Some entry, s1) \<Rightarrow>
          let currentCount = (case map_of (accessLog s1) k of None \<Rightarrow> 0 | Some c \<Rightarrow> c);
              s2 = s1\<lparr>accessLog := AList.update k (currentCount + 1) (accessLog s1)\<rparr>;
              entry' = entry\<lparr>accessCount := currentCount + 1\<rparr>
          in (Some entry', cache_set now k entry' s2))"

definition cm_delete :: "nat \<Rightarrow> string \<Rightarrow> CacheManager \<Rightarrow> bool \<times> CacheManager" where
  "cm_delete now k s =
     (case cache_get now k s of
        (None, s1) \<Rightarrow> (False, s1)
      | (Some entry, s1) \<Rightarrow>
          if path entry \<in> set (faulty s1) then (False, s1)
          else (True, s1\<lparr>files := AList.delete (path entry) (files s1),
                          currentSize := currentSize s1 - int (size_bytes entry),
                          cache := AList.delete k (cache s1),
                          accessLog := AList.delete k (accessLog s1)\<rparr>))"

text \<open>
  \<open>evictLRU\<close>: the entries of the access log, sorted by count with the stable sort of
  \<open>Array.prototype.sort\<close>; the first key is deleted if the cache still holds it.
\<close>

definition evictLRU :: "nat \<Rightarrow> CacheManager \<Rightarrow> CacheManager" where
  "evictLRU now s =
     (case sort_key snd (accessLog s) of
        [] \<Rightarrow> s
      | (lruKey, _) # _ \<Rightarrow>
          (case cache_get now lruKey s of
             (None, s1) \<Rightarrow> s1
           | (Some entry, s1) \<Rightarrow> snd (cm_delete now lruKey s1)))"

text \<open>
  \<open>ensureSpace\<close> is a \<open>while\<close> loop that may run forever (when the key \<open>evictLRU\<close> picks
  has no entry in the cache, nothing changes); not returning is the value \<open>None\<close>.
\<close>

partial_function (option) ensureSpace :: "nat \<Rightarrow> nat \<Rightarrow> CacheManager \<Rightarrow> CacheManager option" where
  "ensureSpace now requiredBytes s =
     (if currentSize s + int requiredBytes > maxSize s \<and> length (accessLog s) > 0
      then ensureSpace now requiredBytes (evictLRU now s)
      else Some s)"

declare ensureSpace.simps [code]

text \<open>
  \<open>set\<close>. The size test \<open>data.length > this.maxSize * 0.1\<close> is written over the integers
  as \<open>10 * data.length > maxSize\<close> (the two agree for integer sizes in the range where
  doubles are exact). Time is read once per call.
\<close>

definition cm_set ::
  "nat \<Rightarrow> string \<Rightarrow> buffer \<Rightarrow> string \<Rightarrow> string list \<Rightarrow> CacheManager
     \<Rightarrow> ((cache_error + CacheEntry) \<times> CacheManager) option" where
  "cm_set now k data ctype encs s =
     (if isShuttingDown s then Some (Inl ShuttingDown, s)
      else
        let cachePath = joinPath (cacheDir s) k in
        if 10 * int (length data) > maxSize s then Some (Inl FileTooLarge, s)
        else
          case ensureSpace now (length data) s of
            None \<Rightarrow> None
          | Some s1 \<Rightarrow>
              if cachePath \<in> set (faulty s1) then Some (Inl WriteFailed, s1)
              else
                let s2 = s1\<lparr>files := AList.update cachePath data (files s1)\<rparr>;
                    entry = \<lparr>key = k, path = cachePath, size_bytes = length data,
                             contentType = ctype, etag = Md5Hex data, lastModified = now,
                             expiresAt = now + (if stdTTL s2 = 0 then 86400 else stdTTL s2) * 1000,
                             accessCount = 0,
                             compressed = (''gzip'' \<in> set encs \<or> ''br'' \<in> set encs),
                             encodings = encs, isTransformed = None, originalKey = None\<rparr>;
                    s3 = cache_set now k entry s2;
                    s4 = s3\<lparr>currentSize := currentSize s3 + int (length data)\<rparr>;
                    s5 = s4\<lparr>accessLog := AList.update k 0 (accessLog s4)\<rparr>
                in Some (Inr entry, s5))"

text \<open>
  \<open>set\<close> is an \<open>async\<close> function: it suspends at \<open>await this.ensureSpace(...)\<close> and at
  \<open>await fs.writeFile(...)\<close>, and the handlers of other requests run while it is
  suspended. Its three stretches are: the checks and the eviction loop; the write of
  the file; and, in one synchronous run, the construction of the entry and the updates
  of the cache, of \<open>currentSize\<close> and of the access log. \<open>cm_set\<close> above is the three
  run one after the other with nothing in between.
\<close>

definition set_ensure :: "nat \<Rightarrow> buffer \<Rightarrow> CacheManager \<Rightarrow> (cache_error + CacheManager) option" where
  "set_ensure now data s =
     (if isShuttingDown s then Some (Inl ShuttingDown)
      else if 10 * int (length data) > maxSize s then Some (Inl FileTooLarge)
      else map_option Inr (ensureSpace now (length data) s))"

definition set_write :: "string \<Rightarrow> buffer \<Rightarrow> CacheManager \<Rightarrow> cache_error + CacheManager" where
  "set_write cachePath data s1 =
     (if cachePath \<in> set (faulty s1) then Inl WriteFailed
      else Inr (s1\<lparr>files := AList.update cachePath data (files s1)\<rparr>))"

definition set_commit ::
  "nat \<Rightarrow> string \<Rightarrow> string \<Rightarrow> buffer \<Rightarrow> string \<Rightarrow> string list \<Rightarrow> CacheManager
     \<Rightarrow> CacheEntry \<times> CacheManager" where
  "set_commit now k cachePath data ctype encs s2 =
     (let entry = \<lparr>key = k, path = cachePath, size_bytes = length data,
                   contentType = ctype, etag = Md5Hex data, lastModified = now,
                   expiresAt = now + (if stdTTL s2 = 0 then 86400 else stdTTL s2) * 1000,
                   accessCount = 0,
                   compressed = (''gzip'' \<in> set encs \<or> ''br'' \<in> set encs),
                   encodings = encs, isTransformed = None, originalKey = None\<rparr>;
          s3 = cache_set now k entry s2;
          s4 = s3\<lparr>currentSize := currentSize s3 + int (length data)\<rparr>;
          s5 = s4\<lparr>accessLog := AList.update k 0 (accessLog s4)\<rparr>
      in (entry, s5))"

text \<open>The loop shared by \<open>purge\<close> and \<open>invalidatePattern\<close>: delete and count.\<close>

fun delete_each :: "nat \<Rightarrow> (string \<Rightarrow> bool) \<Rightarrow> string list \<Rightarrow> nat \<Rightarrow> CacheManager \<Rightarrow> nat \<times> CacheManager" where
  "delete_each now test [] count s = (count, s)"
| "delete_each now test (k # ks) count s =
     (if test k then
        (case cm_delete now k s of
           (True, s1) \<Rightarrow> delete_each now test ks (count + 1) s1
         | (False, s1) \<Rightarrow> delete_each now test ks count s1)
      else delete_each now test ks count s)"

text \<open>\<open>purge\<close>; a failure to remove the index file is caught and logged.\<close>

definition purge :: "nat \<Rightarrow> CacheManager \<Rightarrow> nat \<times> CacheManager" where
  "purge now s =
     (case delete_each now (\<lambda>_. True) (nc_keys (cache s)) 0 s of
        (count, s1) \<Rightarrow>
          (count, if metadataPath s1 \<in> set (faulty s1) then s1 else s1\<lparr>metadataFile := NoFile\<rparr>))"

text \<open>
  \<open>invalidatePattern\<close>. The regular-expression engine of the host is a parameter:
  \<open>regexp p\<close> is \<open>None\<close> when \<open>new RegExp(p)\<close> throws, and otherwise the function
  \<open>regex.test\<close> of the compiled pattern.
\<close>

definition invalidatePattern ::
  "(string \<Rightarrow> (string \<Rightarrow> bool) option) \<Rightarrow> nat \<Rightarrow> string \<Rightarrow> CacheManager
     \<Rightarrow> (cache_error + nat) \<times> CacheManager" where
  "invalidatePattern regexp now pattern s =
     (let keys = nc_keys (cache s) in
      case regexp pattern of
        None \<Rightarrow> (Inl InvalidRegex, s)
      | Some test \<Rightarrow>
          (case delete_each now test keys 0 s of (count, s1) \<Rightarrow> (Inr count, s1)))"

record CacheStats =
  stat_size :: int
  stat_entries :: nat
  stat_currentSize :: int
  stat_persisted :: bool

definition getStats :: "CacheManager \<Rightarrow> CacheStats" where
  "getStats s = \<lparr>stat_size = maxSize s, stat_entries = length (nc_keys (cache s)),
                 stat_currentSize = currentSize s, stat_persisted = (\<not> isShuttingDown s)\<rparr>"

section \<open>Persistence and recovery\<close>

text \<open>The error of \<open>saveMetadata\<close> when \<open>fs.writeJson\<close> throws.\<close>

datatype save_error = SaveFailed

text \<open>The loop of \<open>saveMetadata\<close>: every key of the cache is looked up, found entries are pushed.\<close>

fun collect_entries :: "nat \<Rightarrow> string list \<Rightarrow> CacheEntry list \<Rightarrow> CacheManager \<Rightarrow> CacheEntry list \<times> CacheManager" where
  "collect_entries now [] acc s = (acc, s)"
| "collect_entries now (k # ks) acc s =
     (case cache_get now k s of
        (None, s1) \<Rightarrow> collect_entries now ks acc s1
      | (Some entry, s1) \<Rightarrow> collect_entries now ks (acc @ [entry]) s1)"

definition saveMetadata :: "nat \<Rightarrow> CacheManager \<Rightarrow> (save_error + unit) \<times> CacheManager" where
  "saveMetadata now s =
     (if isShuttingDown s then (Inr (), s)
      else
        case collect_entries now (nc_keys (cache s)) [] s of
          (es, s1) \<Rightarrow>
            let metadata = \<lparr>version = ''1.0'', lastSaved = now, entries = es,
                            savedAccessLog = accessLog s1\<rparr>
            in if metadataPath s1 \<in> set (faulty s1) then (Inl SaveFailed, s1)
               else (Inr (), s1\<lparr>metadataFile := Stored metadata\<rparr>))"

definition shutdown :: "nat \<Rightarrow> CacheManager \<Rightarrow> (save_error + unit) \<times> CacheManager" where
  "shutdown now s = saveMetadata now (s\<lparr>isShuttingDown := True\<rparr>)"

text \<open>
  \<open>loadExistingCache\<close>: the sizes of the plain files directly inside the cache directory
  are added to \<open>currentSize\<close>; no entry is registered. The files that \<open>readdir\<close> lists
  are those named by the directory, a slash and a name without a slash, the directory
  being given in normalised form.
\<close>

definition direct_files :: "string \<Rightarrow> (string \<times> buffer) list \<Rightarrow> (string \<times> buffer) list" where
  "direct_files dir fs =
     filter (\<lambda>(p, c). take (length dir + 1) p = dir @ ''/''
                       \<and> CHR ''/'' \<notin> set (drop (length dir + 1) p)) fs"

definition loadExistingCache :: "CacheManager \<Rightarrow> CacheManager" where
  "loadExistingCache s =
     s\<lparr>currentSize :=
         foldl (\<lambda>n (p, c). n + int (length c)) (currentSize s) (direct_files (cacheDir s) (files s))\<rparr>"

text \<open>\<open>new Map(pairs)\<close>: a later pair for a key replaces the value and keeps the key's place.\<close>

definition new_Map :: "(string \<times> nat) list \<Rightarrow> (string \<times> nat) list" where
  "new_Map pairs = foldl (\<lambda>m (k, c). AList.update k c m) [] pairs"

text \<open>
  The body of the loop of \<open>loadPersistedCache\<close> for one recorded entry. A \<open>fs.remove\<close>
  that throws is caught; the entry is counted as failed and not restored.
\<close>

definition remove_file :: "string \<Rightarrow> CacheManager \<Rightarrow> CacheManager" where
  "remove_file p s = (if p \<in> set (faulty s) then s else s\<lparr>files := AList.delete p (files s)\<rparr>)"

definition restore_entry :: "nat \<Rightarrow> CacheEntry \<Rightarrow> CacheManager \<Rightarrow> CacheManager" where
  "restore_entry now entry s =
     (case map_of (files s) (path entry) of
        None \<Rightarrow> s
      | Some content \<Rightarrow>
          if length content = size_bytes entry then
            if expiresAt entry > now then
              (cache_set now (key entry) entry s)\<lparr>currentSize := currentSize s + int (size_bytes entry)\<rparr>
            else remove_file (path entry) s
          else remove_file (path entry) s)"

definition loadPersistedCache :: "nat \<Rightarrow> CacheManager \<Rightarrow> CacheManager" where
  "loadPersistedCache now s =
     (case metadataFile s of
        NoFile \<Rightarrow> loadExistingCache s
      | Unreadable \<Rightarrow> loadExistingCache s
      | Stored metadata \<Rightarrow>
          if version metadata \<noteq> ''1.0'' then s
          else foldl (\<lambda>s' entry. restore_entry now entry s')
                 (s\<lparr>accessLog := new_Map (savedAccessLog metadata)\<rparr>) (entries metadata))"

text \<open>
  The constructor, followed by the load it starts: the manager for a cache directory
  with the given byte files, faulty paths and index file.
\<close>

definition newCacheManager ::
  "nat \<Rightarrow> string \<Rightarrow> int \<Rightarrow> nat \<Rightarrow> (string \<times> buffer) list \<Rightarrow> string list \<Rightarrow> metafile \<Rightarrow> CacheManager" where
  "newCacheManager now dir maxBytes ttl fs bad meta =
     loadPersistedCache now
       \<lparr>cache = [], stdTTL = ttl, cacheDir = dir, maxSize = maxBytes, currentSize = 0,
        accessLog = [], isShuttingDown = False, files = fs, faulty = bad, metadataFile = meta\<rparr>"

text \<open>The entries a caller can still get at time \<open>now\<close>, and the sum of their sizes.\<close>

definition live :: "nat \<Rightarrow> CacheManager \<Rightarrow> string \<Rightarrow> bool" where
  "live now s k = (case map_of (cache s) k of None \<Rightarrow> False | Some (t, v) \<Rightarrow> t = 0 \<or> now \<le> t)"

definition liveEntries :: "nat \<Rightarrow> CacheManager \<Rightarrow> CacheEntry list" where
  "liveEntries now s = map (\<lambda>(k, t, v). v) (filter (\<lambda>(k, t, v). t = 0 \<or> now \<le> t) (cache s))"

definition liveSize :: "nat \<Rightarrow> CacheManager \<Rightarrow> int" where
  "liveSize now s = sum_list (map (\<lambda>e. int (size_bytes e)) (liveEntries now s))"

text \<open>A new process over the directory an old one leaves behind.\<close>

definition restart :: "nat \<Rightarrow> CacheManager \<Rightarrow> CacheManager" where
  "restart now s =
     newCacheManager now (cacheDir s) (maxSize s) (stdTTL s) (files s) (faulty s) (metadataFile s)"

section \<open>Sequences of requests\<close>

datatype request =
    Put string buffer string
  | Get string
  | Delete string
  | Purge
  | Invalidate string

fun step :: "(string \<Rightarrow> (string \<Rightarrow> bool) option) \<Rightarrow> nat \<Rightarrow> request \<Rightarrow> CacheManager \<Rightarrow> CacheManager option" where
  "step regexp now (Put k data ctype) s = map_option snd (cm_set now k data ctype [] s)"
| "step regexp now (Get k) s = Some (snd (cm_get now k s))"
| "step regexp now (Delete k) s = Some (snd (cm_delete now k s))"
| "step regexp now Purge s = Some (snd (purge now s))"
| "step regexp now (Invalidate p) s = Some (snd (invalidatePattern regexp now p s))"

text \<open>Requests are served one after the other, each at its own time.\<close>

fun run :: "(string \<Rightarrow> (string \<Rightarrow> bool) option) \<Rightarrow> (nat \<times> request) list \<Rightarrow> CacheManager \<Rightarrow> CacheManager option" where
  "run regexp [] s = Some s"
| "run regexp ((now, r) # rs) s =
     (case step regexp now r s of None \<Rightarrow> None | Some s1 \<Rightarrow> run regexp rs s1)"

text \<open>
  A regular-expression engine for the examples: the behaviour of \<open>RegExp\<close> on the patterns
  made of letters, digits and underscores, where \<open>test\<close> holds exactly when the pattern
  occurs somewhere in the string. Every other pattern is refused, which the host also
  does for \<open>(\<close>; the host accepts many patterns that this engine refuses, so it is used
  at word patterns and at \<open>(\<close> only.
\<close>

fun occurs_in :: "string \<Rightarrow> string \<Rightarrow> bool" where
  "occurs_in p [] = (p = [])"
| "occurs_in p (c # cs) = (take (length p) (c # cs) = p \<or> occurs_in p cs)"

definition word_char :: "char \<Rightarrow> bool" where
  "word_char c \<longleftrightarrow> c \<in> set ''abcdefghijklmnopqrstuvwxyzABCDEFGHIJKLMNOPQRSTUVWXYZ0123456789_''"

definition word_RegExp :: "string \<Rightarrow> (string \<Rightarrow> bool) option" where
  "word_RegExp p = (if list_all word_char p then Some (occurs_in p) else None)"

section \<open>States with consistent accounting\<close>

definition entry_of :: "CacheManager \<Rightarrow> string \<Rightarrow> CacheEntry" where
  "entry_of s k = snd (the (map_of (cache s) k))"

text \<open>Every key of the access log has an entry that \<open>delete\<close> can remove.\<close>

definition evictable :: "nat \<Rightarrow> CacheManager \<Rightarrow> bool" where
  "evictable now s \<longleftrightarrow>
     (\<forall>k \<in> set (map fst (accessLog s)). live now s k \<and> path (entry_of s k) \<notin> set (faulty s))"

text \<open>
  No unaccounted bytes: \<open>currentSize\<close> is at most the total size of the entries that the
  access log names.
\<close>

definition accounted :: "nat \<Rightarrow> CacheManager \<Rightarrow> bool" where
  "accounted now s \<longleftrightarrow>
     distinct (map fst (accessLog s)) \<and> evictable now s \<and>
     currentSize s \<le> sum_list (map (\<lambda>k. int (size_bytes (entry_of s k))) (map fst (accessLog s)))"

text \<open>The state after the entry \<open>v\<close> stored under \<open>k\<close> has been deleted.\<close>

definition without :: "string \<Rightarrow> CacheEntry \<Rightarrow> CacheManager \<Rightarrow> CacheManager" where
  "without k v s =
     s\<lparr>files := AList.delete (path v) (files s),
       currentSize := currentSize s - int (size_bytes v),
       cache := AList.delete k (cache s),
       accessLog := AList.delete k (accessLog s)\<rparr>"



text \<open>The entry that a lookup of \<open>k\<close> at time \<open>now\<close> finds in the data \<open>d\<close>.\<close>

definition live_entry :: "nat \<Rightarrow> (string \<times> nat \<times> CacheEntry) list \<Rightarrow> string \<Rightarrow> CacheEntry option" where
  "live_entry now d k =
     (case map_of d k of None \<Rightarrow> None | Some (t, v) \<Rightarrow> if t = 0 \<or> now \<le> t then Some v else None)"

text \<open>
  The three checks of recovery on a recorded entry: the file exists, its size is the
  recorded size, and \<open>expiresAt\<close> lies in the future.
\<close>

definition checks :: "nat \<Rightarrow> (string \<times> buffer) list \<Rightarrow> CacheEntry \<Rightarrow> bool" where
  "checks now fs e \<longleftrightarrow>
     map_option length (map_of fs (path e)) = Some (size_bytes e) \<and> now < expiresAt e"

text \<open>
  Every entry that is live at \<open>now1\<close> is stored under its own key and passes the checks
  at \<open>now2\<close>: its file is in place and it does not expire before \<open>now2\<close>.
\<close>

definition intact :: "nat \<Rightarrow> nat \<Rightarrow> CacheManager \<Rightarrow> bool" where
  "intact now1 now2 s \<longleftrightarrow>
     (\<forall>(k, t, v) \<in> set (cache s). (t = 0 \<or> now1 \<le> t) \<longrightarrow> key v = k \<and> checks now2 (files s) v)"



text \<open>
  During recovery files only disappear, and every entry in the cache is a recorded entry
  that passed the checks against the files found at start.
\<close>

definition recovering ::
  "nat \<Rightarrow> (string \<times> buffer) list \<Rightarrow> string list \<Rightarrow> CacheEntry list \<Rightarrow> CacheManager \<Rightarrow> bool" where
  "recovering now fs bad es s \<longleftrightarrow>
     faulty s = bad \<and>
     (\<forall>p. map_of (files s) p = None \<or> map_of (files s) p = map_of fs p) \<and>
     (\<forall>(k, t, v) \<in> set (cache s). v \<in> set es \<and> k = key v \<and> checks now fs v)"

section \<open>Example stores\<close>

text \<open>An empty cache directory, capacity 1000 bytes, ttl 10 seconds.\<close>

definition emptyStore :: CacheManager where
  "emptyStore = newCacheManager 0 ''cache'' 1000 10 [] [] NoFile"

text \<open>
  A cache directory that holds one orphaned file of 95 bytes and no index file, opened
  with capacity 100 bytes: the cold recovery.
\<close>

definition coldStore :: CacheManager where
  "coldStore = newCacheManager 0 ''cache'' 100 10 [(''cache/orphan'', replicate 95 0)] [] NoFile"

text \<open>The same with 65 orphaned bytes, then \<open>A\<close>, \<open>B\<close> and \<open>C\<close> of 10 bytes each, in that order.\<close>

definition abcStore :: "CacheManager option" where
  "abcStore =
     run word_RegExp
       [(1, Put ''A'' (replicate 10 1) ''text/plain''),
        (2, Put ''B'' (replicate 10 2) ''text/plain''),
        (3, Put ''C'' (replicate 10 3) ''text/plain'')]
       (newCacheManager 0 ''cache'' 100 10 [(''cache/orphan'', replicate 65 0)] [] NoFile)"



text \<open>\<open>A\<close> is read once, \<open>B\<close> and \<open>C\<close> never; then \<open>D\<close> of 10 bytes is inserted.\<close>

definition abcTieRun :: "CacheManager option" where
  "abcTieRun =
     run word_RegExp [(4, Get ''A''), (5, Put ''D'' (replicate 10 4) ''text/plain'')] (the abcStore)"

text \<open>\<open>A\<close> is read three times, \<open>B\<close> once, \<open>C\<close> never.\<close>

definition abcReadStore :: "CacheManager option" where
  "abcReadStore =
     run word_RegExp [(4, Get ''A''), (5, Get ''A''), (6, Get ''A''), (7, Get ''B'')] (the abcStore)"

text \<open>The entry stored under \<open>C\<close>.\<close>

definition entryC :: CacheEntry where
  "entryC = \<lparr>key = ''C'', path = ''cache/C'', size_bytes = 10, contentType = ''text/plain'',
              etag = Md5Hex (replicate 10 3), lastModified = 3, expiresAt = 10003, accessCount = 0,
              compressed = False, encodings = [], isTransformed = None, originalKey = None\<rparr>"

text \<open>The same key is put twice.\<close>

definition replaceRun :: "CacheManager option" where
  "replaceRun =
     run word_RegExp
       [(1, Put ''k'' [1, 2, 3] ''text/plain''), (2, Put ''k'' [4, 5, 6] ''text/plain'')] emptyStore"

text \<open>
  An entry is put at time 0 with a ttl of 10 seconds, so its \<open>expiresAt\<close> is 10000, and
  read at time 6000.
\<close>

definition staleRun :: "CacheManager option" where
  "staleRun = run word_RegExp [(0, Put ''k'' [1, 2, 3] ''text/plain''), (6000, Get ''k'')] emptyStore"

text \<open>
  That store is saved at time 12000 and a new process starts over the directory at
  time 12001.
\<close>

definition staleReloaded :: CacheManager where
  "staleReloaded = restart 12001 (snd (saveMetadata 12000 (the staleRun)))"

text \<open>The key \<open>k\<close> is put at time 0.\<close>

definition firstPut :: CacheManager where
  "firstPut = snd (the (cm_set 0 ''k'' [1, 2, 3] ''text/plain'' [] emptyStore))"

text \<open>The manager is shut down at time 1, and a new process starts at time 2.\<close>

definition shutReloaded :: CacheManager where
  "shutReloaded = restart 2 (snd (shutdown 1 firstPut))"


text \<open>
  A directory with 95 orphaned bytes, capacity 100: \<open>j\<close> of 5 bytes is put at time 1
  and never read, so that it has expired at time 20000.
\<close>

definition agedStore :: CacheManager where
  "agedStore = snd (the (cm_set 1 ''j'' (replicate 5 0) ''text/plain'' [] coldStore))"

text \<open>In the store with \<open>A\<close>, \<open>B\<close> and \<open>C\<close>, the key \<open>./B\<close> is put.\<close>

definition aliasPut :: "((cache_error + CacheEntry) \<times> CacheManager) option" where
  "aliasPut = cm_set 8 ''./B'' [7, 7] ''image/png'' [] (the abcStore)"



text \<open>
  An index file that records four entries, and the byte files found with it at time
  20000: the file of \<open>good\<close> is in place, that of \<open>gone\<close> is missing, that of \<open>short\<close> has
  2 bytes instead of 3, and \<open>old\<close> expired at 15000.
\<close>

definition recorded :: "string \<Rightarrow> nat \<Rightarrow> CacheEntry" where
  "recorded k exp =
     \<lparr>key = k, path = joinPath ''cache'' k, size_bytes = 3, contentType = ''text/plain'',
      etag = Md5Hex [1, 2, 3], lastModified = 5000, expiresAt = exp, accessCount = 0,
      compressed = False, encodings = [], isTransformed = None, originalKey = None\<rparr>"

definition savedIndex :: CacheMetadata where
  "savedIndex =
     \<lparr>version = ''1.0'', lastSaved = 9000,
      entries = [recorded ''good'' 30000, recorded ''gone'' 30000, recorded ''short'' 30000,
                 recorded ''old'' 15000],
      savedAccessLog = [(''good'', 0), (''gone'', 0), (''short'', 0), (''old'', 0)]\<rparr>"

definition foundFiles :: "(string \<times> buffer) list" where
  "foundFiles = [(''cache/good'', [1, 2, 3]), (''cache/short'', [1, 2]), (''cache/old'', [1, 2, 3])]"

definition recovered :: CacheManager where
  "recovered = newCacheManager 20000 ''cache'' 1000 10 foundFiles [] (Stored savedIndex)"

section \<open>The origin fetch client\<close>

text \<open>
  \<open>OriginConfig\<close> as the constructor of \<open>OriginPullManager\<close> leaves it: the defaults
  \<open>timeout: 30000, retryAttempts: 3, cacheOnPull: true, followRedirects: true,
  maxRedirectDepth: 5\<close> are filled in for the fields that the given configuration lacks.
\<close>

record OriginConfig =
  enabled :: bool
  url :: string
  timeout :: nat
  retryAttempts :: nat
  cacheOnPull :: bool
  followRedirects :: bool
  maxRedirectDepth :: nat
  allowedExtensions :: "string list option"
  deniedExtensions :: "string list option"

record RawOriginConfig =
  raw_enabled :: bool
  raw_url :: string
  raw_timeout :: "nat option"
  raw_retryAttempts :: "nat option"
  raw_cacheOnPull :: "bool option"
  raw_followRedirects :: "bool option"
  raw_maxRedirectDepth :: "nat option"
  raw_allowedExtensions :: "string list option"
  raw_deniedExtensions :: "string list option"

definition newOriginPullManager :: "RawOriginConfig \<Rightarrow> OriginConfig" where
  "newOriginPullManager c =
     \<lparr>enabled = raw_enabled c, url = raw_url c,
      timeout = (case raw_timeout c of None \<Rightarrow> 30000 | Some n \<Rightarrow> n),
      retryAttempts = (case raw_retryAttempts c of None \<Rightarrow> 3 | Some n \<Rightarrow> n),
      cacheOnPull = (case raw_cacheOnPull c of None \<Rightarrow> True | Some b \<Rightarrow> b),
      followRedirects = (case raw_followRedirects c of None \<Rightarrow> True | Some b \<Rightarrow> b),
      maxRedirectDepth = (case raw_maxRedirectDepth c of None \<Rightarrow> 5 | Some n \<Rightarrow> n),
      allowedExtensions = raw_allowedExtensions c, deniedExtensions = raw_deniedExtensions c\<rparr>"

text \<open>
  What \<open>axios.get\<close> comes back with: a response with status 200, an error that carries a
  response with another status, or an error without a response (time-out, network).
\<close>

record OriginResponse =
  body :: "buffer option"
  contentTypeHeader :: "string option"

datatype axios_result = Response OriginResponse | HttpError nat | NoResponse

datatype origin_error =
    RedirectDepthExceeded               \<comment> \<open>\<open>Maximum redirect depth exceeded\<close>\<close>
  | Origin404 string                    \<comment> \<open>\<open>Origin returned 404: url\<close>\<close>
  | OriginStatus nat string             \<comment> \<open>\<open>Origin returned status: url\<close>\<close>
  | RequestFailed                       \<comment> \<open>the error of \<open>axios\<close>, thrown on\<close>
  | EmptyResponse                       \<comment> \<open>\<open>Empty response from origin\<close>\<close>
  | ExtensionDenied string              \<comment> \<open>\<open>File extension ext is not allowed\<close>\<close>
  | ExtensionNotAllowed string          \<comment> \<open>\<open>File extension ext is not in allowed list\<close>\<close>
  | CacheFailed cache_error             \<comment> \<open>an error of \<open>cacheManager.set\<close>\<close>

text \<open>What the client does on the network, in order.\<close>

datatype event = Request string | Sleep nat

text \<open>\<open>x || d\<close> on numbers: \<open>0\<close> is falsy.\<close>

definition or_default :: "nat \<Rightarrow> nat \<Rightarrow> nat" where
  "or_default x d = (if x = 0 then d else x)"

text \<open>
  \<open>fetchFromOrigin\<close>. The origin is a function from the URL and the number of requests
  made before to the outcome of the next request; the result comes with the requests and
  sleeps made, in order.
\<close>

function fetchFromOrigin ::
  "OriginConfig \<Rightarrow> (string \<Rightarrow> nat \<Rightarrow> axios_result) \<Rightarrow> string \<Rightarrow> nat \<Rightarrow> nat
     \<Rightarrow> (origin_error + OriginResponse) \<times> event list" where
  "fetchFromOrigin cfg server u redirectCount made =
     (if redirectCount > or_default (maxRedirectDepth cfg) 5 then (Inl RedirectDepthExceeded, [])
      else
        case server u made of
          Response r \<Rightarrow> (Inr r, [Request u])
        | NoResponse \<Rightarrow> (Inl RequestFailed, [Request u])
        | HttpError status \<Rightarrow>
            if status = 404 then (Inl (Origin404 u), [Request u])
            else if status \<ge> 500 \<and> redirectCount < or_default (retryAttempts cfg) 3 then
              (case fetchFromOrigin cfg server u (redirectCount + 1) (made + 1) of
                 (r, evs) \<Rightarrow> (r, Request u # Sleep (1000 * (redirectCount + 1)) # evs))
            else (Inl (OriginStatus status u), [Request u]))"
  by pat_completeness auto
termination
  by (relation "measure (\<lambda>(cfg, server, u, redirectCount, made).
                  or_default (maxRedirectDepth cfg) 5 + 1 - redirectCount)") auto

declare fetchFromOrigin.simps [simp del]

definition requests :: "event list \<Rightarrow> nat" where
  "requests evs = length (filter (\<lambda>e. case e of Request _ \<Rightarrow> True | Sleep _ \<Rightarrow> False) evs)"

definition sleeps :: "event list \<Rightarrow> nat list" where
  "sleeps evs = concat (map (\<lambda>e. case e of Request _ \<Rightarrow> [] | Sleep ms \<Rightarrow> [ms]) evs)"

text \<open>A source that answers every request with the same status.\<close>

definition always :: "nat \<Rightarrow> string \<Rightarrow> nat \<Rightarrow> axios_result" where
  "always status u made = HttpError status"

text \<open>\<open>ImageTransformOptions\<close> and \<open>TransformedImageResult\<close> of \<open>types/index.ts\<close>.\<close>

record ImageTransformOptions =
  width :: "nat option"
  height :: "nat option"
  quality :: "nat option"
  format :: "string option"
  fit :: "string option"
  position :: "string option"

record TransformedImageResult =
  t_buffer :: buffer
  t_contentType :: string
  t_width :: nat
  t_height :: nat
  t_size :: nat

text \<open>
  The functions of the platform that the code calls and whose tables are not part of it:
  the SHA-256 digest in hexadecimal, the look-up of a MIME type by file name, the origin
  server, and the image library: \<open>imageFormat\<close> is the format that \<open>sharp\<close> reads
  from the bytes (\<open>None\<close> when it cannot read them and throws), \<open>render\<close> the bytes,
  width and height that it produces for the given options, output format and quality
  (\<open>None\<close> when it throws).
\<close>

record Host =
  sha256hex :: "string \<Rightarrow> string"
  mimeLookup :: "string \<Rightarrow> string option"
  origin :: "string \<Rightarrow> nat \<Rightarrow> axios_result"
  imageFormat :: "buffer \<Rightarrow> string option"
  render :: "buffer \<Rightarrow> ImageTransformOptions \<Rightarrow> string \<Rightarrow> nat \<Rightarrow> (buffer \<times> nat \<times> nat) option"

definition generateKey :: "Host \<Rightarrow> string \<Rightarrow> string" where
  "generateKey host u = sha256hex host u"

text \<open>\<open>String.prototype.toLowerCase\<close> on ASCII letters.\<close>

definition lower_char :: "char \<Rightarrow> char" where
  "lower_char c =
     (let n = of_char c :: nat in if 65 \<le> n \<and> n \<le> 90 then char_of (n + 32) else c)"

definition toLowerCase :: "string \<Rightarrow> string" where
  "toLowerCase s = map lower_char s"

text \<open>
  \<open>path.extname\<close> (POSIX): the part of the last path component from its last dot on;
  empty when the component has no dot, starts with its only dot, or is \<open>..\<close>.
\<close>

definition basename :: "string \<Rightarrow> string" where
  "basename p = rev (takeWhile (\<lambda>c. c \<noteq> CHR ''/'') (dropWhile (\<lambda>c. c = CHR ''/'') (rev p)))"

definition extname :: "string \<Rightarrow> string" where
  "extname p =
     (let base = basename p;
          suffix = rev (takeWhile (\<lambda>c. c \<noteq> CHR ''.'') (rev base))
      in if CHR ''.'' \<notin> set base \<or> base = ''..'' \<or> length suffix + 1 = length base then []
         else CHR ''.'' # suffix)"

record OriginPullResult =
  r_success :: bool
  r_key :: string
  r_url :: string
  r_cdnUrl :: string
  r_size :: nat
  r_contentType :: string
  r_cached :: bool
  r_source :: string
  r_originUrl :: string

definition buildOriginUrl :: "OriginConfig \<Rightarrow> string \<Rightarrow> string" where
  "buildOriginUrl cfg requestPath =
     (let cleanPath = (if take 1 requestPath = ''/'' then drop 1 requestPath else requestPath);
          baseOrigin = (if url cfg \<noteq> [] \<and> last (url cfg) = CHR ''/'' then butlast (url cfg) else url cfg)
      in baseOrigin @ ''/'' @ cleanPath)"

text \<open>\<open>a || b || 'application/octet-stream'\<close> for the content type.\<close>

definition pickContentType :: "Host \<Rightarrow> OriginResponse \<Rightarrow> string \<Rightarrow> string" where
  "pickContentType host response requestPath =
     (let guessed = (case mimeLookup host requestPath of
                       Some m \<Rightarrow> if m = [] then ''application/octet-stream'' else m
                     | None \<Rightarrow> ''application/octet-stream'')
      in case contentTypeHeader response of
           Some h \<Rightarrow> if h = [] then guessed else h
         | None \<Rightarrow> guessed)"

text \<open>
  \<open>pullFromOrigin\<close>. The state is the cache manager and the log of the network events so
  far; the result is \<open>None\<close> when the call does not return (\<open>cacheManager.set\<close> may not).
\<close>

fun pullFromOrigin ::
  "Host \<Rightarrow> OriginConfig \<Rightarrow> nat \<Rightarrow> string \<Rightarrow> string \<Rightarrow> CacheManager \<times> event list
     \<Rightarrow> ((origin_error + OriginPullResult) \<times> CacheManager \<times> event list) option" where
  "pullFromOrigin host cfg now requestPath baseUrl (s, log) =
     (if \<not> enabled cfg then
        Some (Inr \<lparr>r_success = False, r_key = [], r_url = [], r_cdnUrl = [], r_size = 0,
                   r_contentType = [], r_cached = False, r_source = ''origin'', r_originUrl = []\<rparr>,
              s, log)
      else
        let ext = toLowerCase (extname requestPath) in
        if (case deniedExtensions cfg of None \<Rightarrow> False | Some exts \<Rightarrow> ext \<in> set exts)
        then Some (Inl (ExtensionDenied ext), s, log)
        else if (case allowedExtensions cfg of None \<Rightarrow> False | Some exts \<Rightarrow> ext \<notin> set exts)
        then Some (Inl (ExtensionNotAllowed ext), s, log)
        else
          let originUrl = buildOriginUrl cfg requestPath;
              k = generateKey host requestPath
          in case fetchFromOrigin cfg (origin host) originUrl 0 (requests log) of
               (Inl err, evs) \<Rightarrow> Some (Inl err, s, log @ evs)
             | (Inr response, evs) \<Rightarrow>
                 (case body response of
                    None \<Rightarrow> Some (Inl EmptyResponse, s, log @ evs)
                  | Some content \<Rightarrow>
                      let ctype = pickContentType host response requestPath;
                          result = \<lparr>r_success = True, r_key = k, r_url = ''/cdn/'' @ k,
                                    r_cdnUrl = baseUrl @ ''/cdn/'' @ k, r_size = length content,
                                    r_contentType = ctype, r_cached = cacheOnPull cfg,
                                    r_source = ''origin'', r_originUrl = originUrl\<rparr>
                      in if cacheOnPull cfg then
                           (case cm_set now k content ctype [] s of
                              None \<Rightarrow> None
                            | Some (Inl err, s1) \<Rightarrow> Some (Inl (CacheFailed err), s1, log @ evs)
                            | Some (Inr entry, s1) \<Rightarrow> Some (Inr result, s1, log @ evs))
                         else Some (Inr result, s, log @ evs)))"

declare pullFromOrigin.simps [simp del]

text \<open>\<open>prefetch\<close>: a pull that throws is logged and leaves no result.\<close>

fun prefetch_loop ::
  "Host \<Rightarrow> OriginConfig \<Rightarrow> nat \<Rightarrow> string \<Rightarrow> string list \<Rightarrow> OriginPullResult list
     \<Rightarrow> CacheManager \<times> event list \<Rightarrow> (OriginPullResult list \<times> CacheManager \<times> event list) option" where
  "prefetch_loop host cfg now baseUrl [] results st = Some (results, st)"
| "prefetch_loop host cfg now baseUrl (u # us) results st =
     (case pullFromOrigin host cfg now u baseUrl st of
        None \<Rightarrow> None
      | Some (Inl err, st1) \<Rightarrow> prefetch_loop host cfg now baseUrl us results st1
      | Some (Inr result, st1) \<Rightarrow> prefetch_loop host cfg now baseUrl us (results @ [result]) st1)"

definition prefetch ::
  "Host \<Rightarrow> OriginConfig \<Rightarrow> nat \<Rightarrow> string list \<Rightarrow> string \<Rightarrow> CacheManager \<times> event list
     \<Rightarrow> (OriginPullResult list \<times> CacheManager \<times> event list) option" where
  "prefetch host cfg now urls baseUrl st = prefetch_loop host cfg now baseUrl urls [] st"

text \<open>
  A host for the examples. The digest is written as the text itself behind a tag, which
  keeps different texts apart as the digest does. Every buffer is read as a PNG image,
  and rendering gives the source bytes cut or filled up with zeros to the given length.
\<close>

definition exampleHost :: "(string \<Rightarrow> nat \<Rightarrow> axios_result) \<Rightarrow> nat \<Rightarrow> Host" where
  "exampleHost server outputBytes =
     \<lparr>sha256hex = (\<lambda>u. ''sha256:'' @ u), mimeLookup = (\<lambda>p. None), origin = server,
      imageFormat = (\<lambda>b. Some ''png''),
      render = (\<lambda>b opts fmt q. Some (take outputBytes (b @ replicate outputBytes 0), 1, 1))\<rparr>"

definition defaultOrigin :: RawOriginConfig where
  "defaultOrigin =
     \<lparr>raw_enabled = True, raw_url = ''http://origin'', raw_timeout = None, raw_retryAttempts = None,
      raw_cacheOnPull = None, raw_followRedirects = None, raw_maxRedirectDepth = None,
      raw_allowedExtensions = None, raw_deniedExtensions = None\<rparr>"

text \<open>The origin has \<open>/a.png\<close> (three bytes) and nothing else.\<close>

definition onlyA :: "string \<Rightarrow> nat \<Rightarrow> axios_result" where
  "onlyA u made =
     (if u = ''http://origin/a.png''
      then Response \<lparr>body = Some [1, 2, 3], contentTypeHeader = Some ''image/png''\<rparr>
      else HttpError 404)"

text \<open>Two configurations: no retries, and more retries than the redirect depth of 5.\<close>

definition noRetries :: OriginConfig where
  "noRetries = newOriginPullManager (defaultOrigin\<lparr>raw_retryAttempts := Some 0\<rparr>)"

definition sevenRetries :: OriginConfig where
  "sevenRetries = newOriginPullManager (defaultOrigin\<lparr>raw_retryAttempts := Some 7\<rparr>)"

text \<open>A prefetch of one path the origin has and one it answers with 404.\<close>

definition prefetchRun :: "(OriginPullResult list \<times> CacheManager \<times> event list) option" where
  "prefetchRun =
     prefetch (exampleHost onlyA 2) (newOriginPullManager defaultOrigin) 5
       [''/a.png'', ''/missing.png''] ''http://localhost:3000'' (emptyStore, [])"

section \<open>Image transforms\<close>

text \<open>The configuration of \<open>ImageTransformManager\<close> after its constructor has filled in the defaults.\<close>

record ImageTransformConfig =
  imageEnabled :: bool
  imageQuality :: nat
  defaultFormat :: string

datatype transform_error =
    TransformDisabled     \<comment> \<open>\<open>Image transformation is not enabled\<close>\<close>
  | TransformFailed       \<comment> \<open>an error of \<open>sharp\<close>, thrown on\<close>

text \<open>The decimal digits of a number, as a template literal writes it.\<close>

fun decimal :: "nat \<Rightarrow> string" where
  "decimal n =
     (if n < 10 then [''0123456789'' ! n] else decimal (n div 10) @ [''0123456789'' ! (n mod 10)])"

declare decimal.simps [simp del]

text \<open>The token of an option that is present and truthy: a number other than 0, a non-empty string.\<close>

definition num_param :: "string \<Rightarrow> nat option \<Rightarrow> string list" where
  "num_param tag v = (case v of Some n \<Rightarrow> if n = 0 then [] else [tag @ decimal n] | None \<Rightarrow> [])"

definition str_param :: "string \<Rightarrow> string option \<Rightarrow> string list" where
  "str_param tag v = (case v of Some x \<Rightarrow> if x = [] then [] else [tag @ x] | None \<Rightarrow> [])"

definition generateTransformKey :: "string \<Rightarrow> ImageTransformOptions \<Rightarrow> string" where
  "generateTransformKey original options =
     (let params = num_param ''w'' (width options) @ num_param ''h'' (height options) @
                   num_param ''q'' (quality options) @ str_param ''f'' (format options) @
                   str_param ''fit'' (fit options) @ str_param ''pos'' (position options)
      in if params = [] then original else original @ ''_'' @ join ''_'' params)"

definition isImageFile :: "string \<Rightarrow> bool" where
  "isImageFile filename =
     (remove1 CHR ''.'' (toLowerCase (extname filename))
        \<in> set [''jpg'', ''jpeg'', ''png'', ''webp'', ''avif'', ''gif'', ''bmp'', ''tiff'', ''svg''])"

definition getFormatFromContentType :: "string \<Rightarrow> string option" where
  "getFormatFromContentType fmt =
     map_of [(''jpeg'', ''jpeg''), (''jpg'', ''jpeg''), (''png'', ''png''), (''webp'', ''webp''),
             (''gif'', ''gif''), (''avif'', ''avif''), (''svg'', ''png'')] (toLowerCase fmt)"

text \<open>\<open>a || b\<close> on strings: the empty string is falsy.\<close>

definition str_or :: "string option \<Rightarrow> string \<Rightarrow> string" where
  "str_or a b = (case a of Some x \<Rightarrow> if x = [] then b else x | None \<Rightarrow> b)"

text \<open>\<open>ImageTransformManager.transform\<close>, the Transform Engine.\<close>

definition transform ::
  "Host \<Rightarrow> ImageTransformConfig \<Rightarrow> buffer \<Rightarrow> ImageTransformOptions
     \<Rightarrow> transform_error + TransformedImageResult" where
  "transform host icfg buf options =
     (if \<not> imageEnabled icfg then Inl TransformDisabled
      else
        case imageFormat host buf of
          None \<Rightarrow> Inl TransformFailed
        | Some fmt \<Rightarrow>
            (let outputFormat =
                  str_or (format options)
                    (str_or (getFormatFromContentType fmt) (str_or (Some (defaultFormat icfg)) ''jpeg''));
                q = or_default (case quality options of Some n \<Rightarrow> n | None \<Rightarrow> 0)
                      (or_default (imageQuality icfg) 85)
             in (case render host buf options outputFormat q of
                   None \<Rightarrow> Inl TransformFailed
                 | Some (out, w, h) \<Rightarrow>
                     Inr \<lparr>t_buffer = out,
                          t_contentType = ''image/'' @ (if outputFormat = ''jpg'' then ''jpeg'' else outputFormat),
                          t_width = w, t_height = h, t_size = length out\<rparr>)))"

section \<open>The request handler\<close>

text \<open>
  The state of the server: the cache manager, the log of network events, the content of
  Redis (for each key the time it expires and the entry), and the number of runs of the
  Transform Engine so far.
\<close>

record Server =
  cm :: CacheManager
  netlog :: "event list"
  redis :: "(string \<times> nat \<times> CacheEntry) list"
  transformRuns :: nat

record ServerConfig =
  originConfig :: OriginConfig
  imageConfig :: ImageTransformConfig
  redisActive :: bool
  redisTtl :: nat
  baseUrl :: string

text \<open>
  \<open>RedisManager.get\<close> and \<open>set\<close>; \<open>redisActive\<close> is \<open>isEnabled()\<close>. A key set at time
  \<open>now\<close> expires \<open>ttl\<close> seconds later.
\<close>

definition redis_get :: "ServerConfig \<Rightarrow> nat \<Rightarrow> string \<Rightarrow> Server \<Rightarrow> CacheEntry option" where
  "redis_get scfg now k srv =
     (if \<not> redisActive scfg then None
      else case map_of (redis srv) k of
             None \<Rightarrow> None
           | Some (expiry, entry) \<Rightarrow> if now < expiry then Some entry else None)"

definition redis_set :: "ServerConfig \<Rightarrow> nat \<Rightarrow> string \<Rightarrow> CacheEntry \<Rightarrow> Server \<Rightarrow> Server" where
  "redis_set scfg now k entry srv =
     (if \<not> redisActive scfg then srv
      else srv\<lparr>redis := AList.update k (now + or_default (redisTtl scfg) 86400 * 1000, entry) (redis srv)\<rparr>)"

datatype x_cache = HIT | TRANSFORMED_HIT | TRANSFORMED | MISS

datatype handler_error =
    ReadFailed                      \<comment> \<open>\<open>fs.readFile\<close> throws\<close>
  | TransformError transform_error
  | StoreError cache_error

text \<open>
  What the handler answers: content with its \<open>X-Cache\<close> header, content type, \<open>ETag\<close> and
  body (\<open>None\<close> when the file to stream is missing), the 404 of \<open>Content not found\<close>, or
  an error passed to the error middleware.
\<close>

datatype reply =
    Served x_cache string digest "buffer option"
  | NotFound
  | Failed handler_error

definition truthy :: "bool option \<Rightarrow> bool" where
  "truthy b = (case b of Some True \<Rightarrow> True | _ \<Rightarrow> False)"

text \<open>The two look-ups: Redis first, then the local cache.\<close>

definition lookup :: "ServerConfig \<Rightarrow> nat \<Rightarrow> string \<Rightarrow> Server \<Rightarrow> CacheEntry option \<times> Server" where
  "lookup scfg now cacheKey srv =
     (case redis_get scfg now cacheKey srv of
        Some entry \<Rightarrow> (Some entry, srv)
      | None \<Rightarrow> (case cm_get now cacheKey (cm srv) of (r, s1) \<Rightarrow> (r, srv\<lparr>cm := s1\<rparr>)))"

text \<open>
  The steps that both branches of the handler take to transform and store: read the
  source file, run the Transform Engine, \<open>set\<close> the output under the derived key, mark
  the entry that \<open>set\<close> returned (the cache holds that same object) and mirror it to
  Redis.
\<close>

definition mark :: "string \<Rightarrow> CacheEntry \<Rightarrow> CacheEntry" where
  "mark k entry = entry\<lparr>isTransformed := Some True, originalKey := Some k\<rparr>"

definition transformAndStore ::
  "Host \<Rightarrow> ServerConfig \<Rightarrow> nat \<Rightarrow> string \<Rightarrow> string \<Rightarrow> ImageTransformOptions \<Rightarrow> string \<Rightarrow> Server
     \<Rightarrow> ((handler_error + TransformedImageResult \<times> CacheEntry) \<times> Server) option" where
  "transformAndStore host scfg now k cacheKey options sourcePath srv =
     (case map_of (files (cm srv)) sourcePath of
        None \<Rightarrow> Some (Inl ReadFailed, srv)
      | Some originalBuffer \<Rightarrow>
          (let srv1 = srv\<lparr>transformRuns := transformRuns srv + 1\<rparr> in
           case transform host (imageConfig scfg) originalBuffer options of
            Inl err \<Rightarrow> Some (Inl (TransformError err), srv1)
          | Inr transformed \<Rightarrow>
              (case cm_set now cacheKey (t_buffer transformed) (t_contentType transformed) [] (cm srv1) of
                 None \<Rightarrow> None
               | Some (Inl err, s1) \<Rightarrow> Some (Inl (StoreError err), srv1\<lparr>cm := s1\<rparr>)
               | Some (Inr entry, s1) \<Rightarrow>
                   let transformedEntry = mark k entry;
                       s2 = s1\<lparr>cache := AList.map_entry cacheKey (\<lambda>(t, v). (t, transformedEntry)) (cache s1)\<rparr>;
                       srv2 = redis_set scfg now cacheKey transformedEntry (srv1\<lparr>cm := s2\<rparr>)
                   in Some (Inr (transformed, transformedEntry), srv2))))"

text \<open>
  The handler of \<open>GET /cdn/:key\<close>, from the parsed transform options on
  (\<open>transformOptions\<close> is the result of \<open>parseTransformOptions(req.query)\<close>).
\<close>

definition cdnGet ::
  "Host \<Rightarrow> ServerConfig \<Rightarrow> nat \<Rightarrow> string \<Rightarrow> ImageTransformOptions option \<Rightarrow> Server
     \<Rightarrow> (reply \<times> Server) option" where
  "cdnGet host scfg now k transformOptions srv =
     (let wanted = (transformOptions \<noteq> None \<and> isImageFile k);
          cacheKey = (if wanted then generateTransformKey k (the transformOptions) else k)
      in case lookup scfg now cacheKey srv of
        (Some cached, srv1) \<Rightarrow>
          if wanted \<and> \<not> truthy (isTransformed cached) then
            (case transformAndStore host scfg now k cacheKey (the transformOptions) (path cached) srv1 of
               None \<Rightarrow> None
             | Some (Inl err, srv2) \<Rightarrow> Some (Failed err, srv2)
             | Some (Inr (transformed, entry), srv2) \<Rightarrow>
                 Some (Served TRANSFORMED (t_contentType transformed) (etag entry)
                         (Some (t_buffer transformed)), srv2))
          else
            Some (Served (if wanted then TRANSFORMED_HIT else HIT) (contentType cached) (etag cached)
                    (map_of (files (cm srv1)) (path cached)), srv1)
      | (None, srv1) \<Rightarrow>
          if \<not> enabled (originConfig scfg) then Some (NotFound, srv1)
          else
            (case pullFromOrigin host (originConfig scfg) now k (baseUrl scfg) (cm srv1, netlog srv1) of
               None \<Rightarrow> None
             | Some (Inl err, s2, log2) \<Rightarrow> Some (NotFound, srv1\<lparr>cm := s2, netlog := log2\<rparr>)
             | Some (Inr result, s2, log2) \<Rightarrow>
                 if \<not> r_success result then Some (NotFound, srv1\<lparr>cm := s2, netlog := log2\<rparr>)
                 else
                   (case cm_get now (r_key result) s2 of
                      (None, s3) \<Rightarrow> Some (NotFound, srv1\<lparr>cm := s3, netlog := log2\<rparr>)
                    | (Some originalEntry, s3) \<Rightarrow>
                        if wanted then
                          (case transformAndStore host scfg now k cacheKey (the transformOptions)
                                  (path originalEntry) (srv1\<lparr>cm := s3, netlog := log2\<rparr>) of
                             None \<Rightarrow> None
                           | Some (Inl err, srv4) \<Rightarrow> Some (NotFound, srv4)
                           | Some (Inr (transformed, entry), srv4) \<Rightarrow>
                               Some (Served TRANSFORMED (t_contentType transformed) (etag entry)
                                       (Some (t_buffer transformed)), srv4))
                        else
                          Some (Served MISS (contentType originalEntry) (etag originalEntry)
                                  (map_of (files s3) (path originalEntry)),
                                srv1\<lparr>cm := s3, netlog := log2\<rparr>))))"

text \<open>A server for the examples: an empty store of the given capacity, ttl 10 seconds, no Redis.\<close>

definition exampleServer :: "int \<Rightarrow> Server" where
  "exampleServer cap =
     \<lparr>cm = newCacheManager 0 ''cache'' cap 10 [] [] NoFile, netlog = [], redis = [], transformRuns = 0\<rparr>"

definition exampleConfig :: ServerConfig where
  "exampleConfig =
     \<lparr>originConfig = newOriginPullManager defaultOrigin,
      imageConfig = \<lparr>imageEnabled = True, imageQuality = 85, defaultFormat = ''jpeg''\<rparr>,
      redisActive = False, redisTtl = 86400, baseUrl = ''http://localhost:3000''\<rparr>"


text \<open>The options of \<open>?w=100\<close>.\<close>

definition w100 :: ImageTransformOptions where
  "w100 = \<lparr>width = Some 100, height = None, quality = None, format = None, fit = None, position = None\<rparr>"

text \<open>
  Two resolutions of \<open>a.png?w=100\<close> in a store of capacity 100 when the transform
  output has 20 bytes, and the first resolution in a store of capacity 1000 when the
  output has 5 bytes.
\<close>

definition oversizeFirst :: "(reply \<times> Server) option" where
  "oversizeFirst = cdnGet (exampleHost onlyA 20) exampleConfig 5 ''a.png'' (Some w100) (exampleServer 100)"

definition oversizeSecond :: "(reply \<times> Server) option" where
  "oversizeSecond =
     cdnGet (exampleHost onlyA 20) exampleConfig 6 ''a.png'' (Some w100) (snd (the oversizeFirst))"

definition goodFirst :: "(reply \<times> Server) option" where
  "goodFirst = cdnGet (exampleHost onlyA 5) exampleConfig 5 ''a.png'' (Some w100) (exampleServer 1000)"

section \<open>Properties of the cache manager\<close>


subsection \<open>Lookups and deletion\<close>

lemma cache_get_eq:
  "cache_get now k s =
     (case map_of (cache s) k of
        None \<Rightarrow> (None, s)
      | Some (t, v) \<Rightarrow>
          if t \<noteq> 0 \<and> t < now then (None, s\<lparr>cache := AList.delete k (cache s)\<rparr>) else (Some v, s))"
  by (simp add: cache_get_def nc_get_def handleCacheExpired_def AList.delete_conv AList.delete_idem
           split: option.splits prod.splits)


lemma cache_get_live:
  "map_of (cache s) k = Some (t, v) \<Longrightarrow> t = 0 \<or> now \<le> t \<Longrightarrow> cache_get now k s = (Some v, s)"
  by (auto simp: cache_get_eq)

lemma cm_delete_live:
  "map_of (cache s) k = Some (t, v) \<Longrightarrow> t = 0 \<or> now \<le> t \<Longrightarrow> path v \<notin> set (faulty s) \<Longrightarrow>
   cm_delete now k s = (True, without k v s)"
  by (simp add: cm_delete_def cache_get_live without_def)

subsection \<open>The key that eviction picks\<close>

lemma hd_insort_key:
  "hd (insort_key f x ys) = (if ys = [] \<or> f x \<le> f (hd ys) then x else hd ys)"
  by (cases ys) auto

lemma sort_key_Cons: "sort_key f (x # xs) = insort_key f x (sort_key f xs)"
  by (simp add: sort_key_def)

lemma sort_key_eq_Nil: "sort_key f xs = [] \<longleftrightarrow> xs = []"
  by (metis length_sort list.size(3) length_0_conv)

lemma hd_sort_key_in: "xs \<noteq> [] \<Longrightarrow> hd (sort_key f xs) \<in> set xs"
  by (metis hd_in_set set_sort sort_key_eq_Nil)

text \<open>The stable sort puts first the earliest element among those with the least count.\<close>

lemma hd_sort_key_split:
  "\<forall>b\<in>set bs. f x < f b \<Longrightarrow> \<forall>a\<in>set as. f x \<le> f a \<Longrightarrow> hd (sort_key f (bs @ x # as)) = x"
proof (induction bs)
  case Nil
  show ?case
  proof (cases "as = []")
    case True
    then show ?thesis by (simp add: sort_key_Cons)
  next
    case False
    then have "hd (sort_key f as) \<in> set as" by (rule hd_sort_key_in)
    with Nil.prems(2) show ?thesis by (simp add: sort_key_Cons hd_insort_key)
  qed
next
  case (Cons b bs)
  then have "hd (sort_key f (bs @ x # as)) = x" by simp
  moreover have "sort_key f (bs @ x # as) \<noteq> []" by (simp add: sort_key_eq_Nil)
  moreover have "f x < f b" using Cons.prems(1) by simp
  ultimately show ?case by (auto simp: sort_key_Cons hd_insort_key)
qed

lemma evictLRU_eq:
  "accessLog s \<noteq> [] \<Longrightarrow>
   evictLRU now s =
     (let lruKey = fst (hd (sort_key snd (accessLog s))) in
      case cache_get now lruKey s of
        (None, s1) \<Rightarrow> s1
      | (Some entry, s1) \<Rightarrow> snd (cm_delete now lruKey s1))"
  by (cases "sort_key snd (accessLog s)") (auto simp: evictLRU_def sort_key_eq_Nil split: prod.splits)

lemma evictLRU_picked:
  assumes "accessLog s \<noteq> []" and "fst (hd (sort_key snd (accessLog s))) = k"
    and "map_of (cache s) k = Some (t, v)" and "t = 0 \<or> now \<le> t" and "path v \<notin> set (faulty s)"
  shows "evictLRU now s = without k v s"
  using assms by (simp add: evictLRU_eq cache_get_live cm_delete_live)

subsection \<open>Eviction on a store whose access-log keys are all live\<close>











subsection \<open>Evaluation of the examples\<close>

lemmas cm_eval =
  cm_set_def cm_get_def cm_delete_def cache_get_def cache_set_def nc_get_def nc_set_def nc_keys_def
  livetime_def handleCacheExpired_def evictLRU_def ensureSpace.simps joinPath_def normalize_def Let_def
  newCacheManager_def loadPersistedCache_def loadExistingCache_def direct_files_def getStats_def
  liveSize_def liveEntries_def live_def accounted_def evictable_def entry_of_def
  emptyStore_def coldStore_def abcStore_def AList.delete_eq

subsection \<open>Capacity\<close>




subsection \<open>Eviction order\<close>

text \<open>
  C2, as stated, fails. \<open>A\<close>, \<open>B\<close>, \<open>C\<close> are inserted in that order, \<open>A\<close> is read once (more
  than \<open>B\<close>) and \<open>C\<close> is never read. The insert of \<open>D\<close> forces exactly one eviction, and it
  evicts \<open>B\<close>, the older of the two entries with count 0, not \<open>C\<close>.
\<close>

theorem abc_tie_evicts_B:
  "abcStore \<noteq> None \<and> abcTieRun \<noteq> None \<and>
   nc_keys (cache (the abcStore)) = [''A'', ''B'', ''C''] \<and>
   nc_keys (cache (the abcTieRun)) = [''A'', ''C'', ''D'']"
  by (simp add: abcTieRun_def cm_eval)

text \<open>
  C2, with the tie rule applied to the example. When the access log is
  \<open>older @ (k, c) # newer\<close>, every older key has a count above \<open>c\<close>, every newer key a
  count of at least \<open>c\<close>, and \<open>k\<close> has a live entry whose file can be removed, then
  \<open>evictLRU\<close> deletes exactly that entry, and \<open>ensureSpace\<close> deletes it and goes on from
  the resulting store as long as the required bytes do not fit. So the entry with the
  lowest count goes first, the oldest first among equals; in the example \<open>C\<close> is evicted
  when \<open>B\<close> has been read at least once.
\<close>

theorem evictLRU_lowest_count_oldest_first:
  assumes "accessLog s = older @ (k, c) # newer"
    and "\<forall>(k', c') \<in> set older. c < c'"
    and "\<forall>(k', c') \<in> set newer. c \<le> c'"
    and "map_of (cache s) k = Some (t, v)" and "t = 0 \<or> now \<le> t"
    and "path v \<notin> set (faulty s)"
  shows "evictLRU now s = without k v s \<and>
         ensureSpace now n s =
           (if currentSize s + int n > maxSize s then ensureSpace now n (without k v s) else Some s)"
proof -
  have "hd (sort_key snd (accessLog s)) = (k, c)"
    unfolding assms(1) using assms(2,3) by (intro hd_sort_key_split) auto
  then have "fst (hd (sort_key snd (accessLog s))) = k" by simp
  moreover have "accessLog s \<noteq> []" using assms(1) by simp
  ultimately have ev: "evictLRU now s = without k v s"
    using assms(4-6) by (intro evictLRU_picked)
  show ?thesis using ev assms(1) by (subst ensureSpace.simps) simp
qed

text \<open>
  C2, the example: after three reads of \<open>A\<close> and one of \<open>B\<close> the access log is
  \<open>[(A, 3), (B, 1), (C, 0)]\<close>, and eviction deletes \<open>C\<close>.
\<close>

theorem evictLRU_evicts_C_witness:
  "accessLog (the abcReadStore) = [(''A'', 3), (''B'', 1)] @ (''C'', 0) # [] \<and>
   map_of (cache (the abcReadStore)) ''C'' = Some (10003, entryC) \<and>
   path entryC \<notin> set (faulty (the abcReadStore)) \<and>
   evictLRU 8 (the abcReadStore) = without ''C'' entryC (the abcReadStore) \<and>
   nc_keys (cache (evictLRU 8 (the abcReadStore))) = [''A'', ''B'']"
proof -
  have a: "accessLog (the abcReadStore) = [(''A'', 3), (''B'', 1)] @ (''C'', 0) # []"
    by (simp add: abcReadStore_def cm_eval)
  have b: "\<forall>(k', c') \<in> set [(''A'', 3 :: nat), (''B'', 1)]. 0 < c'" by simp
  have c: "\<forall>(k', c') \<in> set ([] :: (string \<times> nat) list). 0 \<le> c'" by simp
  have d: "map_of (cache (the abcReadStore)) ''C'' = Some (10003, entryC)"
    by (simp add: abcReadStore_def entryC_def cm_eval)
  have e: "(10003 :: nat) = 0 \<or> 8 \<le> (10003 :: nat)" by simp
  have f: "path entryC \<notin> set (faulty (the abcReadStore))"
    by (simp add: abcReadStore_def cm_eval)
  have g: "nc_keys (cache (without ''C'' entryC (the abcReadStore))) = [''A'', ''B'']"
    by (simp add: without_def abcReadStore_def cm_eval)
  show ?thesis
    using a d f g evictLRU_lowest_count_oldest_first [OF a b c d e f, of 10] by simp
qed

text \<open>
  The two other cases of the example: with equal counts the oldest entry, \<open>A\<close>, is
  evicted; after three reads of \<open>A\<close> and one of \<open>B\<close>, the insert of \<open>D\<close> evicts \<open>C\<close>.
\<close>

lemma abc_equal_counts_evict_A:
  "accessLog (the abcStore) = [(''A'', 0), (''B'', 0), (''C'', 0)] \<and>
   nc_keys (cache (evictLRU 4 (the abcStore))) = [''B'', ''C'']"
  by (simp add: cm_eval)

lemma abc_insert_evicts_C:
  "abcReadStore \<noteq> None \<and>
   accessLog (the abcReadStore) = [(''A'', 3), (''B'', 1), (''C'', 0)] \<and>
   step word_RegExp 8 (Put ''D'' (replicate 10 4) ''text/plain'') (the abcReadStore) \<noteq> None \<and>
   nc_keys (cache (the (step word_RegExp 8 (Put ''D'' (replicate 10 4) ''text/plain'') (the abcReadStore))))
     = [''A'', ''B'', ''D'']"
  by (simp add: abcReadStore_def cm_eval)

subsection \<open>Accounting of replaced keys\<close>

text \<open>
  C10 fails on the code. From the empty store, two puts of 3 bytes under the same key
  leave one live entry of 3 bytes, and \<open>stats()\<close> reports \<open>currentSize = 6\<close>: the size of
  the replaced entry is not reclaimed.
\<close>

theorem replaced_key_is_counted_twice:
  "replaceRun \<noteq> None \<and> stat_entries (getStats (the replaceRun)) = 1 \<and>
   stat_currentSize (getStats (the replaceRun)) = 6 \<and> liveSize 3 (the replaceRun) = 3"
  by (simp add: replaceRun_def cm_eval)

subsection \<open>Expiry\<close>

text \<open>
  C6 fails on the code. The entry put at time 0 has \<open>expiresAt = 10000\<close>. The read at
  time 6000 stores it again and so renews the ttl of the in-memory cache; the read at
  time 12000, after \<open>expiresAt\<close>, still returns the entry.
\<close>

theorem get_returns_entry_past_expiresAt:
  "staleRun \<noteq> None \<and> fst (cm_get 12000 ''k'' (the staleRun)) \<noteq> None \<and>
   expiresAt (the (fst (cm_get 12000 ''k'' (the staleRun)))) = 10000 \<and>
   accessCount (the (fst (cm_get 12000 ''k'' (the staleRun)))) = 2"
  by (simp add: staleRun_def cm_eval)

subsection \<open>Invalidation by pattern\<close>












subsection \<open>Replacing a key\<close>





















text \<open>
  The eviction loop does not end when the key it picks has no entry and work is left:
  \<open>evictLRU\<close> then changes nothing.
\<close>

lemma ensureSpace_stuck:
  assumes "evictLRU now s = s" and "currentSize s + int n > maxSize s" and "accessLog s \<noteq> []"
  shows "ensureSpace now n s = None"
proof (rule ccontr)
  assume "ensureSpace now n s \<noteq> None"
  then obtain y where y: "ensureSpace now n s = Some y" by auto
  have "\<not> (evictLRU now s = s \<and> currentSize s + int n > maxSize s \<and> accessLog s \<noteq> [])"
  proof (rule ensureSpace.raw_induct
      [where P = "\<lambda>now n s y. \<not> (evictLRU now s = s \<and> currentSize s + int n > maxSize s \<and> accessLog s \<noteq> [])",
        OF _ y])
    fix loop :: "nat \<Rightarrow> nat \<Rightarrow> CacheManager \<Rightarrow> CacheManager option" and now n s y
    assume ih: "\<And>now n s y. loop now n s = Some y \<Longrightarrow>
                  \<not> (evictLRU now s = s \<and> currentSize s + int n > maxSize s \<and> accessLog s \<noteq> [])"
      and eq: "(if maxSize s < currentSize s + int n \<and> 0 < length (accessLog s)
                then loop now n (evictLRU now s) else Some s) = Some y"
    show "\<not> (evictLRU now s = s \<and> currentSize s + int n > maxSize s \<and> accessLog s \<noteq> [])"
    proof
      assume st: "evictLRU now s = s \<and> currentSize s + int n > maxSize s \<and> accessLog s \<noteq> []"
      with eq have "loop now n s = Some y" by simp
      from ih [OF this] st show False by simp
    qed
  qed
  with assms show False by simp
qed

text \<open>
  This happens when a key of the access log has expired without being read: the lookup
  of \<open>evictLRU\<close> removes the key from the cache, the listener finds no entry to clean up,
  and the access log keeps the key. A put that needs space then never returns.
\<close>

lemma put_after_unread_expiry_never_returns:
  "cm_set 20000 ''n'' (replicate 5 0) ''text/plain'' [] agedStore = None"
proof -
  let ?s1 = "evictLRU 20000 agedStore"
  have a: "evictLRU 20000 ?s1 = ?s1" by (simp add: agedStore_def cm_eval)
  have b: "currentSize ?s1 + int 5 > maxSize ?s1" by (simp add: agedStore_def cm_eval)
  have c: "accessLog ?s1 \<noteq> []" by (simp add: agedStore_def cm_eval)
  have d: "currentSize agedStore + int 5 > maxSize agedStore \<and> length (accessLog agedStore) > 0"
    by (simp add: agedStore_def cm_eval)
  have "ensureSpace 20000 5 agedStore = ensureSpace 20000 5 ?s1"
    using d by (subst ensureSpace.simps) simp
  also have "\<dots> = None" using a b c by (rule ensureSpace_stuck)
  finally have e: "ensureSpace 20000 5 agedStore = None" .
  have f: "\<not> isShuttingDown agedStore \<and> \<not> 10 * int (length (replicate 5 (0::nat))) > maxSize agedStore"
    by (simp add: agedStore_def cm_eval)
  show ?thesis using e f by (simp add: cm_set_def)
qed

text \<open>
  Keys that \<open>path.join\<close> maps to one path share one file: after the put of \<open>./B\<close> the entry
  of \<open>B\<close> is the old one and its file holds the bytes of \<open>./B\<close>.
\<close>

lemma put_of_alias_key_overwrites_file:
  "joinPath ''cache'' ''./B'' = joinPath ''cache'' ''B'' \<and>
   aliasPut \<noteq> None \<and>
   nc_keys (cache (snd (the aliasPut))) = [''A'', ''B'', ''C'', ''./B''] \<and>
   map_option etag (fst (cm_get 9 ''B'' (snd (the aliasPut)))) = Some (Md5Hex (replicate 10 2)) \<and>
   map_option path (fst (cm_get 9 ''B'' (snd (the aliasPut)))) = Some ''cache/B'' \<and>
   map_of (files (snd (the aliasPut))) ''cache/B'' = Some [7, 7]"
  by (simp add: aliasPut_def cm_eval)

text \<open>\<open>set\<close> is its three stretches, run one after the other.\<close>

lemma cm_set_phases:
  "cm_set now k data ctype encs s =
     (case set_ensure now data s of
        None \<Rightarrow> None
      | Some (Inl err) \<Rightarrow> Some (Inl err, s)
      | Some (Inr s1) \<Rightarrow>
          (case set_write (joinPath (cacheDir s) k) data s1 of
             Inl err \<Rightarrow> Some (Inl err, s1)
           | Inr s2 \<Rightarrow>
               (case set_commit now k (joinPath (cacheDir s) k) data ctype encs s2 of
                  (entry, s5) \<Rightarrow> Some (Inr entry, s5))))"
  by (simp add: cm_set_def set_ensure_def set_write_def set_commit_def Let_def split: option.splits)

subsection \<open>Persistence and recovery\<close>

lemma map_filter_cong:
  "(\<And>x. x \<in> set xs \<Longrightarrow> f x = g x) \<Longrightarrow> List.map_filter f xs = List.map_filter g xs"
  by (induction xs) (auto simp: map_filter_simps split: option.splits)

lemma cache_get_live_entry:
  "\<exists>c'. cache_get now k s = (live_entry now (cache s) k, s\<lparr>cache := c'\<rparr>) \<and>
        (\<forall>k'. k' \<noteq> k \<longrightarrow> map_of c' k' = map_of (cache s) k')"
proof (cases "map_of (cache s) k")
  case None
  then have "cache_get now k s = (live_entry now (cache s) k, s\<lparr>cache := cache s\<rparr>)"
    by (simp add: cache_get_eq live_entry_def)
  then show ?thesis by blast
next
  case (Some tv)
  obtain t v where tv: "tv = (t, v)" by (cases tv)
  show ?thesis
  proof (cases "t = 0 \<or> now \<le> t")
    case True
    with Some tv have "cache_get now k s = (live_entry now (cache s) k, s\<lparr>cache := cache s\<rparr>)"
      by (auto simp: cache_get_eq live_entry_def)
    then show ?thesis by blast
  next
    case False
    with Some tv have "cache_get now k s = (live_entry now (cache s) k, s\<lparr>cache := AList.delete k (cache s)\<rparr>)"
      by (auto simp: cache_get_eq live_entry_def)
    moreover have "\<forall>k'. k' \<noteq> k \<longrightarrow> map_of (AList.delete k (cache s)) k' = map_of (cache s) k'"
      by (simp add: AList.delete_conv)
    ultimately show ?thesis by blast
  qed
qed

lemma collect_entries_char:
  assumes "distinct ks"
  shows "\<exists>c'. collect_entries now ks acc s
           = (acc @ List.map_filter (live_entry now (cache s)) ks, s\<lparr>cache := c'\<rparr>)"
  using assms
proof (induction ks arbitrary: acc s)
  case Nil
  have "s = s\<lparr>cache := cache s\<rparr>" by simp
  then have "collect_entries now [] acc s = (acc @ List.map_filter (live_entry now (cache s)) [], s\<lparr>cache := cache s\<rparr>)"
    by (simp add: map_filter_simps)
  then show ?case by blast
next
  case (Cons k ks)
  from cache_get_live_entry [of now k s] obtain c1 where
    g: "cache_get now k s = (live_entry now (cache s) k, s\<lparr>cache := c1\<rparr>)"
    and o: "\<forall>k'. k' \<noteq> k \<longrightarrow> map_of c1 k' = map_of (cache s) k'"
    by blast
  have kn: "k \<notin> set ks" and d: "distinct ks" using Cons.prems by simp_all
  have same: "List.map_filter (live_entry now c1) ks = List.map_filter (live_entry now (cache s)) ks"
    by (rule map_filter_cong) (use kn o in \<open>auto simp: live_entry_def\<close>)
  show ?case
  proof (cases "live_entry now (cache s) k")
    case None
    from Cons.IH [OF d, of acc "s\<lparr>cache := c1\<rparr>"] obtain c' where
      "collect_entries now ks acc (s\<lparr>cache := c1\<rparr>)
         = (acc @ List.map_filter (live_entry now c1) ks, s\<lparr>cache := c'\<rparr>)"
      by auto
    with None g same have "collect_entries now (k # ks) acc s
         = (acc @ List.map_filter (live_entry now (cache s)) (k # ks), s\<lparr>cache := c'\<rparr>)"
      by (simp add: map_filter_simps)
    then show ?thesis by blast
  next
    case (Some e)
    from Cons.IH [OF d, of "acc @ [e]" "s\<lparr>cache := c1\<rparr>"] obtain c' where
      "collect_entries now ks (acc @ [e]) (s\<lparr>cache := c1\<rparr>)
         = ((acc @ [e]) @ List.map_filter (live_entry now c1) ks, s\<lparr>cache := c'\<rparr>)"
      by auto
    with Some g same have "collect_entries now (k # ks) acc s
         = (acc @ List.map_filter (live_entry now (cache s)) (k # ks), s\<lparr>cache := c'\<rparr>)"
      by (simp add: map_filter_simps)
    then show ?thesis by blast
  qed
qed

lemma map_filter_live_entry:
  "distinct (map fst d) \<Longrightarrow>
   List.map_filter (live_entry now d) (map fst d)
     = map (\<lambda>(k, t, v). v) (filter (\<lambda>(k, t, v). t = 0 \<or> now \<le> t) d)"
proof (induction d)
  case Nil
  then show ?case by (simp add: map_filter_simps)
next
  case (Cons x d)
  obtain k t v where x: "x = (k, t, v)" by (cases x)
  have kn: "k \<notin> fst ` set d" and dd: "distinct (map fst d)" using Cons.prems x by simp_all
  let ?d = "(k, t, v) # d"
  have same: "List.map_filter (live_entry now ?d) (map fst d) = List.map_filter (live_entry now d) (map fst d)"
    by (rule map_filter_cong) (use kn in \<open>auto simp: live_entry_def\<close>)
  have head: "live_entry now ?d k = (if t = 0 \<or> now \<le> t then Some v else None)"
    by (simp add: live_entry_def)
  have "List.map_filter (live_entry now ?d) (map fst ?d)
          = (case live_entry now ?d k of
               None \<Rightarrow> List.map_filter (live_entry now ?d) (map fst d)
             | Some y \<Rightarrow> y # List.map_filter (live_entry now ?d) (map fst d))"
    by (simp add: map_filter_simps)
  also have "\<dots> = (if t = 0 \<or> now \<le> t then [v] else [])
                      @ map (\<lambda>(k, t, v). v) (filter (\<lambda>(k, t, v). t = 0 \<or> now \<le> t) d)"
    unfolding head same Cons.IH [OF dd] by simp
  also have "\<dots> = map (\<lambda>(k, t, v). v) (filter (\<lambda>(k, t, v). t = 0 \<or> now \<le> t) ?d)"
    by simp
  finally show ?case unfolding x .
qed

lemma saveMetadata_stores:
  assumes "\<not> isShuttingDown s" and "metadataPath s \<notin> set (faulty s)" and "distinct (nc_keys (cache s))"
  shows "\<exists>c'. saveMetadata now s
           = (Inr (), s\<lparr>cache := c',
                       metadataFile := Stored \<lparr>version = ''1.0'', lastSaved = now,
                                               entries = liveEntries now s,
                                               savedAccessLog = accessLog s\<rparr>\<rparr>)"
proof -
  from collect_entries_char [OF assms(3), of now "[]" s] obtain c' where
    "collect_entries now (nc_keys (cache s)) [] s
       = (List.map_filter (live_entry now (cache s)) (nc_keys (cache s)), s\<lparr>cache := c'\<rparr>)"
    by auto
  moreover have "List.map_filter (live_entry now (cache s)) (nc_keys (cache s)) = liveEntries now s"
    using assms(3) by (simp add: nc_keys_def liveEntries_def map_filter_live_entry)
  ultimately show ?thesis using assms(1,2)
    by (auto simp: saveMetadata_def metadataPath_def Let_def)
qed


lemma update_fresh: "k \<notin> fst ` set al \<Longrightarrow> AList.update k v al = al @ [(k, v)]"
  by (induction al) auto

lemma restore_entry_pass:
  "checks now (files s) e \<Longrightarrow>
   restore_entry now e s
     = (cache_set now (key e) e s)\<lparr>currentSize := currentSize s + int (size_bytes e)\<rparr>"
  by (auto simp: checks_def restore_entry_def split: option.splits)

lemma foldl_restore_pass:
  assumes "\<forall>e \<in> set es. checks now (files s) e" and "distinct (map key es)"
    and "set (map key es) \<inter> fst ` set (cache s) = {}"
  shows "foldl (\<lambda>s' e. restore_entry now e s') s es
           = s\<lparr>cache := cache s @ map (\<lambda>e. (key e, livetime now (stdTTL s), e)) es,
               currentSize := currentSize s + sum_list (map (\<lambda>e. int (size_bytes e)) es)\<rparr>"
  using assms
proof (induction es arbitrary: s)
  case Nil
  then show ?case by simp
next
  case (Cons e es)
  define s1 where "s1 = restore_entry now e s"
  have fresh: "key e \<notin> fst ` set (cache s)" using Cons.prems(3) by auto
  have s1: "s1 = s\<lparr>cache := cache s @ [(key e, livetime now (stdTTL s), e)],
                   currentSize := currentSize s + int (size_bytes e)\<rparr>"
    using Cons.prems(1) fresh
    by (simp add: s1_def restore_entry_pass cache_set_def nc_set_def update_fresh)
  have a: "\<forall>e' \<in> set es. checks now (files s1) e'" using Cons.prems(1) by (simp add: s1)
  have b: "distinct (map key es)" using Cons.prems(2) by simp
  have c: "set (map key es) \<inter> fst ` set (cache s1) = {}"
    using Cons.prems(2,3) by (auto simp: s1)
  show ?case using Cons.IH [OF a b c] by (simp add: s1_def [symmetric]) (simp add: s1 add.assoc)
qed

lemma liveEntries_fresh:
  "liveEntries now (s\<lparr>cache := map (\<lambda>e. (key e, livetime now ttl, e)) es\<rparr>) = es"
  by (induction es) (auto simp: liveEntries_def livetime_def)

lemma intact_live_entries:
  assumes "intact now1 now2 s" and "distinct (nc_keys (cache s))"
  shows "\<forall>e \<in> set (liveEntries now1 s). checks now2 (files s) e"
    and "distinct (map key (liveEntries now1 s))"
proof -
  show "\<forall>e \<in> set (liveEntries now1 s). checks now2 (files s) e"
    using assms(1) by (auto simp: intact_def liveEntries_def)
  have "map key (liveEntries now1 s) = map fst (filter (\<lambda>(k, t, v). t = 0 \<or> now1 \<le> t) (cache s))"
    unfolding liveEntries_def map_map
    by (rule map_cong) (use assms(1) in \<open>auto simp: intact_def\<close>)
  then show "distinct (map key (liveEntries now1 s))"
    using assms(2) by (simp add: nc_keys_def distinct_map_filter)
qed

lemma save_then_restart:
  assumes "\<not> isShuttingDown s" and "metadataPath s \<notin> set (faulty s)"
    and "distinct (nc_keys (cache s))" and "intact now1 now2 s"
  shows "fst (saveMetadata now1 s) = Inr () \<and>
         liveEntries now2 (restart now2 (snd (saveMetadata now1 s))) = liveEntries now1 s"
proof -
  from saveMetadata_stores [OF assms(1-3), of now1] obtain c' where
    sv: "saveMetadata now1 s
           = (Inr (), s\<lparr>cache := c',
                       metadataFile := Stored \<lparr>version = ''1.0'', lastSaved = now1,
                                               entries = liveEntries now1 s,
                                               savedAccessLog = accessLog s\<rparr>\<rparr>)"
    by blast
  define fresh where "fresh = \<lparr>cache = [], stdTTL = stdTTL s, cacheDir = cacheDir s, maxSize = maxSize s,
        currentSize = 0, accessLog = new_Map (accessLog s), isShuttingDown = False, files = files s,
        faulty = faulty s, metadataFile = Stored \<lparr>version = ''1.0'', lastSaved = now1,
                                               entries = liveEntries now1 s,
                                               savedAccessLog = accessLog s\<rparr>\<rparr>"
  have rs: "restart now2 (snd (saveMetadata now1 s))
              = foldl (\<lambda>s' e. restore_entry now2 e s') fresh (liveEntries now1 s)"
    by (simp add: sv restart_def newCacheManager_def loadPersistedCache_def fresh_def)
  note le = intact_live_entries [OF assms(4,3)]
  have "foldl (\<lambda>s' e. restore_entry now2 e s') fresh (liveEntries now1 s)
          = fresh\<lparr>cache := cache fresh @ map (\<lambda>e. (key e, livetime now2 (stdTTL fresh), e)) (liveEntries now1 s),
                  currentSize := currentSize fresh + sum_list (map (\<lambda>e. int (size_bytes e)) (liveEntries now1 s))\<rparr>"
    by (rule foldl_restore_pass) (use le in \<open>simp_all add: fresh_def\<close>)
  then have "liveEntries now2 (restart now2 (snd (saveMetadata now1 s))) = liveEntries now1 s"
    using liveEntries_fresh [where now = now2 and ttl = "stdTTL s" and es = "liveEntries now1 s"]
    by (simp add: rs) (simp add: fresh_def liveEntries_def)
  then show ?thesis by (simp add: sv)
qed


lemma set_update_subset: "set (AList.update k v al) \<subseteq> insert (k, v) (set al)"
  by (induction al) auto

lemma recovering_restore:
  assumes "recovering now fs bad es s" and "e \<in> set es"
  shows "recovering now fs bad es (restore_entry now e s)"
proof (cases "checks now (files s) e")
  case True
  then obtain c where c: "map_of (files s) (path e) = Some c" "length c = size_bytes e" "now < expiresAt e"
    by (auto simp: checks_def)
  with assms(1) have "map_of fs (path e) = Some c" by (metis option.distinct(1) recovering_def)
  with c have ok: "checks now fs e" by (simp add: checks_def)
  have "set (cache (restore_entry now e s)) \<subseteq> insert (key e, livetime now (stdTTL s), e) (set (cache s))"
    using True set_update_subset by (simp add: restore_entry_pass cache_set_def nc_set_def)
  moreover have "files (restore_entry now e s) = files s" "faulty (restore_entry now e s) = faulty s"
    using True by (simp_all add: restore_entry_pass cache_set_def)
  ultimately show ?thesis using assms ok by (fastforce simp: recovering_def)
next
  case False
  then have "restore_entry now e s = s \<or> restore_entry now e s = remove_file (path e) s"
    by (auto simp: checks_def restore_entry_def split: option.splits)
  moreover have "recovering now fs bad es (remove_file (path e) s)"
    using assms(1) by (auto simp: recovering_def remove_file_def AList.delete_conv)
  ultimately show ?thesis using assms(1) by auto
qed

lemma recovering_foldl:
  "recovering now fs bad es s \<Longrightarrow> set xs \<subseteq> set es \<Longrightarrow>
   recovering now fs bad es (foldl (\<lambda>s' e. restore_entry now e s') s xs)"
  by (induction xs arbitrary: s) (auto simp: recovering_restore)

lemma restore_keeps_missing:
  "map_of (files s) p = None \<Longrightarrow> map_of (files (restore_entry now e s)) p = None"
  by (auto simp: restore_entry_def remove_file_def cache_set_def AList.delete_conv split: option.splits)

lemma foldl_keeps_missing:
  "map_of (files s) p = None \<Longrightarrow> map_of (files (foldl (\<lambda>s' e. restore_entry now e s') s xs)) p = None"
  by (induction xs arbitrary: s) (auto simp: restore_keeps_missing)

lemma restore_failed_removes:
  assumes "recovering now fs bad es s" and "path e \<notin> set bad" and "\<not> checks now fs e"
  shows "map_of (files (restore_entry now e s)) (path e) = None"
proof (cases "map_of (files s) (path e)")
  case None
  then show ?thesis by (rule restore_keeps_missing)
next
  case (Some c)
  with assms(1) have "map_of fs (path e) = Some c" by (metis option.distinct(1) recovering_def)
  with assms(3) have "length c \<noteq> size_bytes e \<or> \<not> now < expiresAt e" by (simp add: checks_def)
  moreover have "faulty s = bad" using assms(1) by (simp add: recovering_def)
  ultimately show ?thesis using Some assms(2)
    by (auto simp: restore_entry_def remove_file_def AList.delete_conv)
qed

lemma foldl_failed_removes:
  assumes "recovering now fs bad es s" and "set xs \<subseteq> set es" and "e \<in> set xs"
    and "path e \<notin> set bad" and "\<not> checks now fs e"
  shows "map_of (files (foldl (\<lambda>s' e. restore_entry now e s') s xs)) (path e) = None"
  using assms(1,2,3)
proof (induction xs arbitrary: s)
  case Nil
  then show ?case by simp
next
  case (Cons x xs)
  have r1: "recovering now fs bad es (restore_entry now x s)"
    using Cons.prems(1,2) by (simp add: recovering_restore)
  show ?case
  proof (cases "e = x")
    case True
    have "map_of (files (restore_entry now x s)) (path e) = None"
      unfolding True [symmetric] using Cons.prems(1) assms(4,5) by (rule restore_failed_removes)
    then show ?thesis by (simp add: foldl_keeps_missing)
  next
    case False
    with Cons.prems have "e \<in> set xs" "set xs \<subseteq> set es" by auto
    with Cons.IH [OF r1] show ?thesis by simp
  qed
qed

lemma recovery_strict:
  assumes "version m = ''1.0''"
  shows "(\<forall>(k, t, v) \<in> set (cache (newCacheManager now dir cap ttl fs bad (Stored m))).
            v \<in> set (entries m) \<and> k = key v \<and> checks now fs v) \<and>
         (\<forall>e \<in> set (entries m). path e \<notin> set bad \<longrightarrow> \<not> checks now fs e \<longrightarrow>
            map_of (files (newCacheManager now dir cap ttl fs bad (Stored m))) (path e) = None)"
proof -
  define fresh where "fresh = \<lparr>cache = [], stdTTL = ttl, cacheDir = dir, maxSize = cap,
        currentSize = 0, accessLog = new_Map (savedAccessLog m), isShuttingDown = False, files = fs,
        faulty = bad, metadataFile = Stored m\<rparr>"
  have eq: "newCacheManager now dir cap ttl fs bad (Stored m)
              = foldl (\<lambda>s' e. restore_entry now e s') fresh (entries m)"
    using assms by (simp add: newCacheManager_def loadPersistedCache_def fresh_def)
  have r0: "recovering now fs bad (entries m) fresh"
    by (simp add: recovering_def fresh_def)
  have "recovering now fs bad (entries m) (foldl (\<lambda>s' e. restore_entry now e s') fresh (entries m))"
    using r0 by (rule recovering_foldl) simp
  then have a: "\<forall>(k, t, v) \<in> set (cache (newCacheManager now dir cap ttl fs bad (Stored m))).
            v \<in> set (entries m) \<and> k = key v \<and> checks now fs v"
    by (simp add: eq recovering_def)
  have b: "\<forall>e \<in> set (entries m). path e \<notin> set bad \<longrightarrow> \<not> checks now fs e \<longrightarrow>
            map_of (files (newCacheManager now dir cap ttl fs bad (Stored m))) (path e) = None"
    unfolding eq using foldl_failed_removes [OF r0 subset_refl] by blast
  show ?thesis using a b by blast
qed



text \<open>\<open>shutdown\<close> sets the flag before it saves, and the save returns at once.\<close>

lemma shutdown_saves_nothing: "shutdown now s = (Inr (), s\<lparr>isShuttingDown := True\<rparr>)"
  by (simp add: shutdown_def saveMetadata_def)

text \<open>
  C8, as stated, fails. With a ttl of 10 seconds, \<open>k\<close> is put at time 0 and read at time
  6000: the read stores the entry again, which renews its time to live in the cache but
  not its \<open>expiresAt\<close> of 10000. At time 12000 the entry is live (a get returns it, its
  file is in place) and the index is saved; nothing changes and nothing expires until a
  new process loads the index at time 12001, and that process drops the entry and
  removes its file, because the recorded \<open>expiresAt\<close> has passed. And when the index is
  persisted by \<open>shutdown\<close>, whose save returns at once, a new process finds no index
  file and no entry.
\<close>

theorem reload_loses_served_entries:
  "fst (saveMetadata 12000 (the staleRun)) = Inr () \<and>
   map key (liveEntries 12000 (the staleRun)) = [''k''] \<and>
   map expiresAt (liveEntries 12000 (the staleRun)) = [10000] \<and>
   map_option key (fst (cm_get 12000 ''k'' (the staleRun))) = Some ''k'' \<and>
   map_of (files (the staleRun)) ''cache/k'' = Some [1, 2, 3] \<and>
   liveEntries 12001 staleReloaded = [] \<and>
   fst (cm_get 12001 ''k'' staleReloaded) = None \<and>
   map_of (files staleReloaded) ''cache/k'' = None \<and>
   map key (liveEntries 1 firstPut) = [''k''] \<and>
   metadataFile (snd (shutdown 1 firstPut)) = NoFile \<and>
   liveEntries 2 shutReloaded = [] \<and> fst (cm_get 2 ''k'' shutReloaded) = None"
  by (simp add: staleReloaded_def shutReloaded_def firstPut_def staleRun_def restart_def saveMetadata_def shutdown_def
        liveEntries_def restore_entry_def remove_file_def new_Map_def metadataPath_def cm_eval)

text \<open>
  The round trip when every live entry still has its \<open>expiresAt\<close> ahead, and the checks
  of recovery. If the manager is not shutting down, the index file can be written, the
  keys are distinct, and every live entry is stored under its own key with its file in
  place and an \<open>expiresAt\<close> after the time of the reload, then saving the index and
  starting a new process over the directory gives the same live entries. And whatever a
  version-1.0 index file records: every entry in the cache after recovery is a recorded
  entry, under its own key, whose file was found with the recorded size and whose
  \<open>expiresAt\<close> lies in the future; and the path of a recorded entry that fails one of
  these checks has no file afterwards (unless removing it throws).
\<close>

theorem recovery_roundtrip_and_checks:
  "(\<not> isShuttingDown s \<and> metadataPath s \<notin> set (faulty s) \<and> distinct (nc_keys (cache s)) \<and>
    intact now1 now2 s \<longrightarrow>
      fst (saveMetadata now1 s) = Inr () \<and>
      liveEntries now2 (restart now2 (snd (saveMetadata now1 s))) = liveEntries now1 s) \<and>
   (version m = ''1.0'' \<longrightarrow>
      (\<forall>(k, t, v) \<in> set (cache (newCacheManager now dir cap ttl fs bad (Stored m))).
          v \<in> set (entries m) \<and> k = key v \<and> checks now fs v) \<and>
      (\<forall>e \<in> set (entries m). path e \<notin> set bad \<longrightarrow> \<not> checks now fs e \<longrightarrow>
          map_of (files (newCacheManager now dir cap ttl fs bad (Stored m))) (path e) = None))"
  using save_then_restart [of s now1 now2] recovery_strict [of m now dir cap ttl fs bad]
  by blast

text \<open>
  An instance: the store with \<open>A\<close>, \<open>B\<close>, \<open>C\<close> is saved at time 8 and reloaded at time
  9; and the recovery of the index file with four records keeps \<open>good\<close> only and leaves
  no file for \<open>short\<close> and \<open>old\<close>.
\<close>

theorem recovery_witness:
  "\<not> isShuttingDown (the abcStore) \<and> metadataPath (the abcStore) \<notin> set (faulty (the abcStore)) \<and>
   distinct (nc_keys (cache (the abcStore))) \<and> intact 8 9 (the abcStore) \<and>
   fst (saveMetadata 8 (the abcStore)) = Inr () \<and>
   liveEntries 9 (restart 9 (snd (saveMetadata 8 (the abcStore)))) = liveEntries 8 (the abcStore) \<and>
   map key (liveEntries 8 (the abcStore)) = [''A'', ''B'', ''C''] \<and>
   version savedIndex = ''1.0'' \<and>
   \<not> checks 20000 foundFiles (recorded ''short'' 30000) \<and>
   \<not> checks 20000 foundFiles (recorded ''old'' 15000) \<and>
   map_of (files recovered) ''cache/short'' = None \<and>
   map_of (files recovered) ''cache/old'' = None \<and>
   nc_keys (cache recovered) = [''good'']"
proof -
  have a: "\<not> isShuttingDown (the abcStore)" "metadataPath (the abcStore) \<notin> set (faulty (the abcStore))"
    "distinct (nc_keys (cache (the abcStore)))"
    by (simp_all add: metadataPath_def cm_eval)
  have b: "intact 8 9 (the abcStore)" by (simp add: intact_def checks_def cm_eval)
  have c: "map key (liveEntries 8 (the abcStore)) = [''A'', ''B'', ''C'']" by (simp add: cm_eval)
  have d: "version savedIndex = ''1.0''" by (simp add: savedIndex_def)
  have e: "\<not> checks 20000 foundFiles (recorded ''short'' 30000)"
    "\<not> checks 20000 foundFiles (recorded ''old'' 15000)"
    by (simp_all add: checks_def foundFiles_def recorded_def joinPath_def normalize_def Let_def)
  have f: "recorded ''short'' 30000 \<in> set (entries savedIndex)"
    "recorded ''old'' 15000 \<in> set (entries savedIndex)"
    by (simp_all add: savedIndex_def)
  have g: "path (recorded ''short'' 30000) = ''cache/short''" "path (recorded ''old'' 15000) = ''cache/old''"
    by (simp_all add: recorded_def joinPath_def normalize_def Let_def)
  have h: "nc_keys (cache recovered) = [''good'']"
    by (simp add: recovered_def savedIndex_def foundFiles_def recorded_def restore_entry_def
          remove_file_def new_Map_def cm_eval)
  note inst = recovery_roundtrip_and_checks [where s = "the abcStore" and ?now1.0 = 8 and ?now2.0 = 9
      and m = savedIndex and now = 20000 and dir = "''cache''" and cap = 1000 and ttl = 10
      and fs = foundFiles and bad = "[]"]
  from inst have p1: "\<not> isShuttingDown (the abcStore) \<and>
      metadataPath (the abcStore) \<notin> set (faulty (the abcStore)) \<and>
      distinct (nc_keys (cache (the abcStore))) \<and> intact 8 9 (the abcStore) \<longrightarrow>
      fst (saveMetadata 8 (the abcStore)) = Inr () \<and>
      liveEntries 9 (restart 9 (snd (saveMetadata 8 (the abcStore)))) = liveEntries 8 (the abcStore)"
    by (rule conjunct1)
  have i: "fst (saveMetadata 8 (the abcStore)) = Inr () \<and>
      liveEntries 9 (restart 9 (snd (saveMetadata 8 (the abcStore)))) = liveEntries 8 (the abcStore)"
    by (rule mp [OF p1]) (intro conjI a b)
  from inst have p2: "version savedIndex = ''1.0'' \<longrightarrow>
      (\<forall>(k, t, v) \<in> set (cache (newCacheManager 20000 ''cache'' 1000 10 foundFiles [] (Stored savedIndex))).
          v \<in> set (entries savedIndex) \<and> k = key v \<and> checks 20000 foundFiles v) \<and>
      (\<forall>e \<in> set (entries savedIndex). path e \<notin> set [] \<longrightarrow> \<not> checks 20000 foundFiles e \<longrightarrow>
          map_of (files (newCacheManager 20000 ''cache'' 1000 10 foundFiles [] (Stored savedIndex))) (path e) = None)"
    by (rule conjunct2)
  from mp [OF p2 d] have r: "\<forall>e \<in> set (entries savedIndex). path e \<notin> set [] \<longrightarrow> \<not> checks 20000 foundFiles e \<longrightarrow>
          map_of (files recovered) (path e) = None"
    unfolding recovered_def by (rule conjunct2)
  have j: "map_of (files recovered) ''cache/short'' = None" "map_of (files recovered) ''cache/old'' = None"
    using bspec [OF r f(1)] bspec [OF r f(2)] e by (simp_all add: g)
  show ?thesis by (intro conjI a b c d e h j conjunct1 [OF i] conjunct2 [OF i])
qed

section \<open>Properties of the origin fetch client\<close>

lemmas origin_eval =
  newOriginPullManager_def defaultOrigin_def noRetries_def sevenRetries_def or_default_def always_def
  requests_def sleeps_def

lemma requests_simps [simp]:
  "requests [] = 0" "requests (Request u # evs) = Suc (requests evs)" "requests (Sleep ms # evs) = requests evs"
  by (simp_all add: requests_def)

lemma sleeps_simps [simp]:
  "sleeps [] = []" "sleeps (Request u # evs) = sleeps evs" "sleeps (Sleep ms # evs) = ms # sleeps evs"
  by (simp_all add: sleeps_def)

lemma fetch_5xx_from:
  assumes "\<And>n. server u n = HttpError status" and "500 \<le> status"
    and "or_default (retryAttempts cfg) 3 \<le> or_default (maxRedirectDepth cfg) 5"
    and "c \<le> or_default (retryAttempts cfg) 3"
  shows "fst (fetchFromOrigin cfg server u c made) = Inl (OriginStatus status u) \<and>
         requests (snd (fetchFromOrigin cfg server u c made)) = or_default (retryAttempts cfg) 3 - c + 1 \<and>
         sleeps (snd (fetchFromOrigin cfg server u c made))
           = map (\<lambda>i. 1000 * i) [c + 1 ..< or_default (retryAttempts cfg) 3 + 1]"
  using assms(4)
proof (induction "or_default (retryAttempts cfg) 3 - c" arbitrary: c made)
  case 0
  then have "c = or_default (retryAttempts cfg) 3" by simp
  then have "fetchFromOrigin cfg server u c made = (Inl (OriginStatus status u), [Request u])"
    using assms(1-3) by (subst fetchFromOrigin.simps) simp
  then show ?case using \<open>c = or_default (retryAttempts cfg) 3\<close> by simp
next
  case (Suc d)
  then have lt: "c < or_default (retryAttempts cfg) 3" and le: "c + 1 \<le> or_default (retryAttempts cfg) 3"
    and d: "d = or_default (retryAttempts cfg) 3 - (c + 1)"
    by simp_all
  obtain r evs where rec: "fetchFromOrigin cfg server u (c + 1) (made + 1) = (r, evs)"
    by (cases "fetchFromOrigin cfg server u (c + 1) (made + 1)")
  from Suc.hyps(1) [OF d le, of "made + 1"] rec
  have ih: "r = Inl (OriginStatus status u)"
    "requests evs = or_default (retryAttempts cfg) 3 - (c + 1) + 1"
    "sleeps evs = map (\<lambda>i. 1000 * i) [c + 1 + 1 ..< or_default (retryAttempts cfg) 3 + 1]"
    by simp_all
  have up: "[c + 1 ..< or_default (retryAttempts cfg) 3 + 1]
              = (c + 1) # [c + 1 + 1 ..< or_default (retryAttempts cfg) 3 + 1]"
    using le by (simp add: upt_conv_Cons)
  have st: "status \<noteq> 404" using assms(2) by simp
  have "fetchFromOrigin cfg server u c made = (r, Request u # Sleep (1000 * (c + 1)) # evs)"
    using lt assms(1-3) st rec by (subst fetchFromOrigin.simps) simp
  then show ?case unfolding up using ih lt by simp
qed

text \<open>
  With \<open>retryAttempts\<close> between 1 and the redirect depth, a source that always answers
  5xx is asked \<open>retryAttempts + 1\<close> times, with sleeps of 1000, 2000, ... milliseconds in
  between, and the fetch fails with the status. A source that answers 404 is asked once.
\<close>

lemma fetch_5xx_retry_bound:
  assumes "\<And>n. server u n = HttpError status" and "500 \<le> status"
    and "0 < retryAttempts cfg" and "retryAttempts cfg \<le> or_default (maxRedirectDepth cfg) 5"
  shows "fst (fetchFromOrigin cfg server u 0 made) = Inl (OriginStatus status u) \<and>
         requests (snd (fetchFromOrigin cfg server u 0 made)) = retryAttempts cfg + 1 \<and>
         sleeps (snd (fetchFromOrigin cfg server u 0 made)) = map (\<lambda>i. 1000 * i) [1 ..< retryAttempts cfg + 1]"
  using fetch_5xx_from [of server u status cfg 0 made] assms
  by (simp add: or_default_def)

lemma fetch_404_once:
  "server u made = HttpError 404 \<Longrightarrow>
   fetchFromOrigin cfg server u 0 made = (Inl (Origin404 u), [Request u])"
  by (subst fetchFromOrigin.simps) simp

text \<open>
  C3 fails on the code. With \<open>retryAttempts = 0\<close> the test \<open>retryAttempts || 3\<close> reads the
  0 as missing: a source that always answers 503 is asked four times, not once.
\<close>

theorem zero_retryAttempts_retries_three_times:
  "retryAttempts noRetries = 0 \<and>
   fst (fetchFromOrigin noRetries (always 503) ''http://origin/a.png'' 0 0)
     = Inl (OriginStatus 503 ''http://origin/a.png'') \<and>
   requests (snd (fetchFromOrigin noRetries (always 503) ''http://origin/a.png'' 0 0)) = 4 \<and>
   sleeps (snd (fetchFromOrigin noRetries (always 503) ''http://origin/a.png'' 0 0)) = [1000, 2000, 3000]"
  by (simp add: origin_eval fetchFromOrigin.simps)

text \<open>
  The retry counter is the redirect counter: with \<open>retryAttempts = 7\<close> and the redirect
  depth of 5 the source is asked six times and the fetch fails with the redirect error.
\<close>

lemma seven_retryAttempts_stop_at_redirect_depth:
  "retryAttempts sevenRetries = 7 \<and>
   fst (fetchFromOrigin sevenRetries (always 503) ''http://origin/a.png'' 0 0) = Inl RedirectDepthExceeded \<and>
   requests (snd (fetchFromOrigin sevenRetries (always 503) ''http://origin/a.png'' 0 0)) = 6"
  by (simp add: origin_eval fetchFromOrigin.simps)

text \<open>
  C7 fails on the code. The prefetch of two paths, the second of which the origin answers
  with 404, asks the origin for both and returns one result.
\<close>

theorem prefetch_drops_failed_urls:
  "prefetchRun \<noteq> None \<and> length (fst (the prefetchRun)) = 1 \<and>
   map r_originUrl (fst (the prefetchRun)) = [''http://origin/a.png''] \<and>
   requests (snd (snd (the prefetchRun))) = 2"
  by (simp add: prefetchRun_def prefetch_def exampleHost_def onlyA_def generateKey_def
        buildOriginUrl_def pickContentType_def toLowerCase_def extname_def basename_def
        pullFromOrigin.simps origin_eval cm_eval fetchFromOrigin.simps)

section \<open>Properties of the request handler\<close>

lemma cache_get_frame:
  "cache_get now k s = (r, s') \<Longrightarrow>
   isShuttingDown s' = isShuttingDown s \<and> stdTTL s' = stdTTL s \<and> cacheDir s' = cacheDir s \<and>
   maxSize s' = maxSize s"
  by (auto simp: cache_get_eq split: option.splits if_splits)

lemma cm_delete_frame:
  "cm_delete now k s = (r, s') \<Longrightarrow>
   isShuttingDown s' = isShuttingDown s \<and> stdTTL s' = stdTTL s \<and> cacheDir s' = cacheDir s \<and>
   maxSize s' = maxSize s"
  by (auto simp: cm_delete_def cache_get_eq split: option.splits if_splits)

lemma evictLRU_frame:
  "isShuttingDown (evictLRU now s) = isShuttingDown s \<and> stdTTL (evictLRU now s) = stdTTL s \<and>
   cacheDir (evictLRU now s) = cacheDir s \<and> maxSize (evictLRU now s) = maxSize s"
proof (cases "sort_key snd (accessLog s)")
  case Nil
  then show ?thesis by (simp add: evictLRU_def)
next
  case (Cons x xs)
  obtain lruKey c where x: "x = (lruKey, c)" by (cases x)
  obtain r s1 where g: "cache_get now lruKey s = (r, s1)" by (cases "cache_get now lruKey s")
  obtain b s2 where d: "cm_delete now lruKey s1 = (b, s2)" by (cases "cm_delete now lruKey s1")
  have "evictLRU now s = s1 \<or> evictLRU now s = s2"
    using Cons x g d by (cases r) (simp_all add: evictLRU_def)
  then show ?thesis using cache_get_frame [OF g] cm_delete_frame [OF d] by auto
qed

lemma ensureSpace_frame:
  assumes "ensureSpace now n s = Some s1"
  shows "isShuttingDown s1 = isShuttingDown s \<and> stdTTL s1 = stdTTL s \<and> cacheDir s1 = cacheDir s \<and>
         maxSize s1 = maxSize s"
proof (rule ensureSpace.raw_induct
    [where P = "\<lambda>now n s s1. isShuttingDown s1 = isShuttingDown s \<and> stdTTL s1 = stdTTL s \<and>
                  cacheDir s1 = cacheDir s \<and> maxSize s1 = maxSize s", OF _ assms])
  fix loop :: "nat \<Rightarrow> nat \<Rightarrow> CacheManager \<Rightarrow> CacheManager option" and now n s y
  assume ih: "\<And>now n s y. loop now n s = Some y \<Longrightarrow>
                isShuttingDown y = isShuttingDown s \<and> stdTTL y = stdTTL s \<and>
                cacheDir y = cacheDir s \<and> maxSize y = maxSize s"
    and eq: "(if maxSize s < currentSize s + int n \<and> 0 < length (accessLog s)
              then loop now n (evictLRU now s) else Some s) = Some y"
  show "isShuttingDown y = isShuttingDown s \<and> stdTTL y = stdTTL s \<and>
        cacheDir y = cacheDir s \<and> maxSize y = maxSize s"
  proof (cases "maxSize s < currentSize s + int n \<and> 0 < length (accessLog s)")
    case True
    with eq have "loop now n (evictLRU now s) = Some y" by simp
    from ih [OF this] evictLRU_frame [of now s] show ?thesis by simp
  next
    case False
    with eq have "y = s" by (auto split: if_splits)
    then show ?thesis by simp
  qed
qed

lemma cm_set_frame:
  "cm_set now k data ctype encs s = Some (r, s') \<Longrightarrow>
   isShuttingDown s' = isShuttingDown s \<and> stdTTL s' = stdTTL s \<and> cacheDir s' = cacheDir s \<and>
   maxSize s' = maxSize s"
  by (auto simp: cm_set_def Let_def cache_set_def split: if_splits option.splits dest: ensureSpace_frame)

lemma cm_set_stored:
  assumes "cm_set now k data ctype encs s = Some (Inr e, s')"
  shows "\<not> isShuttingDown s' \<and> map_of (cache s') k = Some (livetime now (stdTTL s), e) \<and>
         contentType e = ctype \<and> etag e = Md5Hex data \<and> key e = k \<and>
         size_bytes e = length data \<and> path e = joinPath (cacheDir s) k \<and>
         map_of (files s') (path e) = Some data"
proof -
  from assms have nd: "\<not> isShuttingDown s" by (auto simp: cm_set_def split: if_splits)
  from assms obtain s1 where es: "ensureSpace now (length data) s = Some s1"
    by (auto simp: cm_set_def Let_def split: if_splits option.splits)
  note fr = ensureSpace_frame [OF es]
  show ?thesis using assms nd es fr cm_set_frame [OF assms]
    by (auto simp: cm_set_def Let_def cache_set_def nc_set_def AList.update_conv' split: if_splits)
qed

lemma cm_get_frame:
  "cm_get now k s = (r, s') \<Longrightarrow>
   isShuttingDown s' = isShuttingDown s \<and> stdTTL s' = stdTTL s \<and> cacheDir s' = cacheDir s \<and>
   maxSize s' = maxSize s"
  by (auto simp: cm_get_def cache_get_eq cache_set_def Let_def split: if_splits option.splits)

lemma cm_get_hit:
  assumes "map_of (cache s) k = Some (t, e)" and "t = 0 \<or> now \<le> t" and "\<not> isShuttingDown s"
  shows "\<exists>s'. cm_get now k s
           = (Some (e\<lparr>accessCount := (case map_of (accessLog s) k of None \<Rightarrow> 0 | Some c \<Rightarrow> c) + 1\<rparr>), s') \<and>
           files s' = files s"
  using assms by (simp add: cm_get_def cache_get_live Let_def cache_set_def)

lemma pullFromOrigin_frame:
  "pullFromOrigin host cfg now p b (s, log) = Some (r, s', log') \<Longrightarrow>
   isShuttingDown s' = isShuttingDown s \<and> stdTTL s' = stdTTL s \<and> cacheDir s' = cacheDir s"
  by (auto simp: pullFromOrigin.simps Let_def split: if_splits option.splits prod.splits sum.splits
        dest: cm_set_frame)

lemma transformAndStore_stored:
  assumes "transformAndStore host scfg now k ck options p srv = Some (Inr (tr, e), srv')"
  shows "transformRuns srv' = transformRuns srv + 1 \<and>
         map_of (cache (cm srv')) ck = Some (livetime now (stdTTL (cm srv)), e) \<and>
         isTransformed e = Some True \<and> originalKey e = Some k \<and> key e = ck \<and>
         contentType e = t_contentType tr \<and> etag e = Md5Hex (t_buffer tr) \<and>
         size_bytes e = length (t_buffer tr) \<and> path e = joinPath (cacheDir (cm srv)) ck \<and>
         map_of (files (cm srv')) (path e) = Some (t_buffer tr) \<and>
         (\<exists>buf. map_of (files (cm srv)) p = Some buf \<and>
                transform host (imageConfig scfg) buf options = Inr tr) \<and>
         \<not> isShuttingDown (cm srv') \<and> stdTTL (cm srv') = stdTTL (cm srv) \<and>
         (if redisActive scfg
          then map_of (redis srv') ck = Some (now + or_default (redisTtl scfg) 86400 * 1000, e)
          else redis srv' = redis srv)"
proof -
  from assms obtain buf where buf: "map_of (files (cm srv)) p = Some buf"
    by (auto simp: transformAndStore_def split: option.splits)
  from assms buf have tr: "transform host (imageConfig scfg) buf options = Inr tr"
    by (auto simp: transformAndStore_def Let_def split: sum.splits option.splits prod.splits)
  from assms buf tr obtain entry s1 where
    st: "cm_set now ck (t_buffer tr) (t_contentType tr) [] (cm srv) = Some (Inr entry, s1)"
    and e: "e = mark k entry"
    and srv': "srv' = redis_set scfg now ck e
                 (srv\<lparr>transformRuns := transformRuns srv + 1,
                      cm := s1\<lparr>cache := AList.map_entry ck (\<lambda>(t, v). (t, e)) (cache s1)\<rparr>\<rparr>)"
    by (auto simp: transformAndStore_def Let_def split: sum.splits option.splits prod.splits)
  note stored = cm_set_stored [OF st] and frame = cm_set_frame [OF st]
  show ?thesis using stored frame buf tr
    by (auto simp: srv' e mark_def redis_set_def AList.map_of_map_entry AList.update_conv')
qed

lemma lookup_runs: "lookup scfg now ck srv = (r, srv') \<Longrightarrow>
  transformRuns srv' = transformRuns srv \<and> stdTTL (cm srv') = stdTTL (cm srv) \<and>
  cacheDir (cm srv') = cacheDir (cm srv) \<and> redis srv' = redis srv \<and> netlog srv' = netlog srv"
  by (auto simp: lookup_def split: option.splits prod.splits dest: cm_get_frame)

text \<open>A resolution that answers \<open>TRANSFORMED\<close> has run the steps of \<open>transformAndStore\<close> once.\<close>

lemma cdnGet_transformed:
  assumes "cdnGet host scfg now k (Some options) srv = Some (Served TRANSFORMED ctype tag sent, srv1)"
  shows "isImageFile k \<and>
         (\<exists>srv0 p tr e. transformAndStore host scfg now k (generateTransformKey k options) options p srv0
                          = Some (Inr (tr, e), srv1) \<and>
                        transformRuns srv0 = transformRuns srv \<and> stdTTL (cm srv0) = stdTTL (cm srv) \<and>
                        cacheDir (cm srv0) = cacheDir (cm srv) \<and>
                        ctype = t_contentType tr \<and> tag = etag e \<and> sent = Some (t_buffer tr) \<and>
            ((\<exists>cached. lookup scfg now (generateTransformKey k options) srv = (Some cached, srv0) \<and>
                       p = path cached) \<or>
             (\<exists>srvL result s2 log2 original s3.
                 lookup scfg now (generateTransformKey k options) srv = (None, srvL) \<and>
                 pullFromOrigin host (originConfig scfg) now k (baseUrl scfg) (cm srvL, netlog srvL)
                   = Some (Inr result, s2, log2) \<and>
                 cm_get now (r_key result) s2 = (Some original, s3) \<and>
                 srv0 = srvL\<lparr>cm := s3, netlog := log2\<rparr> \<and> p = path original)))"
proof -
  have img: "isImageFile k"
    using assms by (auto simp: cdnGet_def Let_def split: if_splits option.splits prod.splits sum.splits)
  obtain r srvL where lk: "lookup scfg now (generateTransformKey k options) srv = (r, srvL)"
    by (cases "lookup scfg now (generateTransformKey k options) srv")
  note lf = lookup_runs [OF lk]
  show ?thesis
  proof (cases r)
    case (Some cached)
    with assms img lk lf show ?thesis
      by (auto simp: cdnGet_def Let_def split: if_splits option.splits prod.splits sum.splits)
  next
    case None
    with assms img lk obtain result s2 log2 where
      pull: "pullFromOrigin host (originConfig scfg) now k (baseUrl scfg) (cm srvL, netlog srvL)
               = Some (Inr result, s2, log2)"
      by (auto simp: cdnGet_def Let_def split: if_splits option.splits prod.splits sum.splits)
    obtain g s3 where get: "cm_get now (r_key result) s2 = (g, s3)"
      by (cases "cm_get now (r_key result) s2")
    note pf = pullFromOrigin_frame [OF pull] and gf = cm_get_frame [OF get]
    have "\<exists>original tr e.
      transformAndStore host scfg now k (generateTransformKey k options) options (path original)
         (srvL\<lparr>cm := s3, netlog := log2\<rparr>) = Some (Inr (tr, e), srv1) \<and> g = Some original \<and>
      ctype = t_contentType tr \<and> tag = etag e \<and> sent = Some (t_buffer tr)"
      using assms img lk None pull get
      by (auto simp: cdnGet_def Let_def split: if_splits option.splits prod.splits sum.splits)
    then obtain original tr e where
      ts: "transformAndStore host scfg now k (generateTransformKey k options) options (path original)
         (srvL\<lparr>cm := s3, netlog := log2\<rparr>) = Some (Inr (tr, e), srv1)"
      and g: "g = Some original"
      and out: "ctype = t_contentType tr" "tag = etag e" "sent = Some (t_buffer tr)"
      by blast
    have fr: "transformRuns (srvL\<lparr>cm := s3, netlog := log2\<rparr>) = transformRuns srv"
      "stdTTL (cm (srvL\<lparr>cm := s3, netlog := log2\<rparr>)) = stdTTL (cm srv)"
      "cacheDir (cm (srvL\<lparr>cm := s3, netlog := log2\<rparr>)) = cacheDir (cm srv)"
      using lf pf gf by simp_all
    have "\<exists>srvL' result s2 log2' original' s3'.
                 lookup scfg now (generateTransformKey k options) srv = (None, srvL') \<and>
                 pullFromOrigin host (originConfig scfg) now k (baseUrl scfg) (cm srvL', netlog srvL')
                   = Some (Inr result, s2, log2') \<and>
                 cm_get now (r_key result) s2 = (Some original', s3') \<and>
                 srvL\<lparr>cm := s3, netlog := log2\<rparr> = srvL'\<lparr>cm := s3', netlog := log2'\<rparr> \<and>
                 path original = path original'"
      using lk None pull get g by blast
    with ts out fr img show ?thesis by blast
  qed
qed

text \<open>A resolution that finds the derived entry, marked as transformed, serves it.\<close>

lemma cdnGet_serves_marked:
  assumes "isImageFile k"
    and "map_of (cache (cm srv)) (generateTransformKey k options) = Some (t, e)"
    and "t = 0 \<or> now \<le> t" and "\<not> isShuttingDown (cm srv)" and "isTransformed e = Some True"
    and "if redisActive scfg then \<exists>x. map_of (redis srv) (generateTransformKey k options) = Some (x, e)
         else True"
  shows "\<exists>srv2. cdnGet host scfg now k (Some options) srv
           = Some (Served TRANSFORMED_HIT (contentType e) (etag e)
                     (map_of (files (cm srv)) (path e)), srv2) \<and>
           transformRuns srv2 = transformRuns srv"
proof -
  let ?ck = "generateTransformKey k options"
  obtain r srvL where lk: "lookup scfg now ?ck srv = (r, srvL)"
    by (cases "lookup scfg now ?ck srv")
  note lf = lookup_runs [OF lk]
  have rg: "redis_get scfg now ?ck srv = None \<or> redis_get scfg now ?ck srv = Some e"
    using assms(6) by (auto simp: redis_get_def split: if_splits)
  from cm_get_hit [OF assms(2,3,4)] obtain s' where
    hit: "cm_get now ?ck (cm srv)
            = (Some (e\<lparr>accessCount := (case map_of (accessLog (cm srv)) ?ck of None \<Rightarrow> 0 | Some c \<Rightarrow> c) + 1\<rparr>), s')"
    and fs: "files s' = files (cm srv)"
    by blast
  have "\<exists>c. r = Some c \<and> isTransformed c = Some True \<and> contentType c = contentType e \<and>
            etag c = etag e \<and> path c = path e \<and> files (cm srvL) = files (cm srv)"
  proof (cases "redis_get scfg now ?ck srv")
    case None
    then show ?thesis using lk hit fs assms(5) by (auto simp: lookup_def)
  next
    case (Some c)
    with rg have "c = e" by simp
    moreover have "r = Some c \<and> srvL = srv" using lk Some by (simp add: lookup_def)
    ultimately show ?thesis using assms(5) by simp
  qed
  then obtain c where r: "r = Some c" and c: "isTransformed c = Some True"
    "contentType c = contentType e" "etag c = etag e" "path c = path e"
    "files (cm srvL) = files (cm srv)"
    by blast
  show ?thesis using assms(1) lk r c lf
    by (simp add: cdnGet_def Let_def truthy_def)
qed

text \<open>
  C5, when the first resolution succeeds. If a resolution of a key with transform options
  answers \<open>TRANSFORMED\<close>, then it has run the Transform Engine exactly once, on the bytes
  \<open>base\<close> of the file it read as the original: the file of the entry found under the
  derived key, or else the file of the entry it got after the pull from the origin. The
  body it sent is the output of that run and the \<open>ETag\<close> is its digest. The store holds,
  under the derived key, an entry with \<open>isTransformed = true\<close> and \<open>originalKey\<close> the base
  key, with the content type and \<open>ETag\<close> that were served and the size of the output; the
  file at the path of the derived key holds the output; Redis holds the same entry when
  it is active. A second resolution of the same key and options, at a time when the ttl
  of the derived entry has not run out, answers \<open>TRANSFORMED_HIT\<close> with the same content
  type and \<open>ETag\<close> and the same bytes as body, and does not run the Transform Engine.
\<close>

theorem second_resolution_serves_derived_entry:
  assumes "cdnGet host scfg now1 k (Some options) srv = Some (Served TRANSFORMED ctype tag sent, srv1)"
    and "stdTTL (cm srv) = 0 \<or> now2 \<le> now1 + stdTTL (cm srv) * 1000"
  shows "\<exists>base tr.
           ((\<exists>cached srv0. lookup scfg now1 (generateTransformKey k options) srv = (Some cached, srv0) \<and>
                           map_of (files (cm srv0)) (path cached) = Some base) \<or>
            (\<exists>srvL result s2 log2 original s3.
                 lookup scfg now1 (generateTransformKey k options) srv = (None, srvL) \<and>
                 pullFromOrigin host (originConfig scfg) now1 k (baseUrl scfg) (cm srvL, netlog srvL)
                   = Some (Inr result, s2, log2) \<and>
                 cm_get now1 (r_key result) s2 = (Some original, s3) \<and>
                 map_of (files s3) (path original) = Some base)) \<and>
           transform host (imageConfig scfg) base options = Inr tr \<and>
           transformRuns srv1 = transformRuns srv + 1 \<and>
           ctype = t_contentType tr \<and> tag = Md5Hex (t_buffer tr) \<and> sent = Some (t_buffer tr) \<and>
           (\<exists>t e. map_of (cache (cm srv1)) (generateTransformKey k options) = Some (t, e) \<and>
                  key e = generateTransformKey k options \<and>
                  isTransformed e = Some True \<and> originalKey e = Some k \<and>
                  contentType e = ctype \<and> etag e = tag \<and> size_bytes e = length (t_buffer tr) \<and>
                  path e = joinPath (cacheDir (cm srv)) (generateTransformKey k options) \<and>
                  map_of (files (cm srv1)) (path e) = Some (t_buffer tr) \<and>
                  (if redisActive scfg
                   then \<exists>x. map_of (redis srv1) (generateTransformKey k options) = Some (x, e)
                   else True)) \<and>
           (\<exists>srv2. cdnGet host scfg now2 k (Some options) srv1
                      = Some (Served TRANSFORMED_HIT ctype tag (Some (t_buffer tr)), srv2) \<and>
                    transformRuns srv2 = transformRuns srv1)"
proof -
  let ?ck = "generateTransformKey k options"
  from cdnGet_transformed [OF assms(1)] obtain srv0 p tr e where
    img: "isImageFile k"
    and ts: "transformAndStore host scfg now1 k ?ck options p srv0 = Some (Inr (tr, e), srv1)"
    and fr: "transformRuns srv0 = transformRuns srv" "stdTTL (cm srv0) = stdTTL (cm srv)"
      "cacheDir (cm srv0) = cacheDir (cm srv)"
    and out: "ctype = t_contentType tr" "tag = etag e" "sent = Some (t_buffer tr)"
    and src: "(\<exists>cached. lookup scfg now1 ?ck srv = (Some cached, srv0) \<and> p = path cached) \<or>
             (\<exists>srvL result s2 log2 original s3.
                 lookup scfg now1 ?ck srv = (None, srvL) \<and>
                 pullFromOrigin host (originConfig scfg) now1 k (baseUrl scfg) (cm srvL, netlog srvL)
                   = Some (Inr result, s2, log2) \<and>
                 cm_get now1 (r_key result) s2 = (Some original, s3) \<and>
                 srv0 = srvL\<lparr>cm := s3, netlog := log2\<rparr> \<and> p = path original)"
    by blast
  note st = transformAndStore_stored [OF ts]
  from st obtain base where base: "map_of (files (cm srv0)) p = Some base"
    and tr: "transform host (imageConfig scfg) base options = Inr tr"
    by blast
  have read: "(\<exists>cached srv0. lookup scfg now1 ?ck srv = (Some cached, srv0) \<and>
                           map_of (files (cm srv0)) (path cached) = Some base) \<or>
            (\<exists>srvL result s2 log2 original s3.
                 lookup scfg now1 ?ck srv = (None, srvL) \<and>
                 pullFromOrigin host (originConfig scfg) now1 k (baseUrl scfg) (cm srvL, netlog srvL)
                   = Some (Inr result, s2, log2) \<and>
                 cm_get now1 (r_key result) s2 = (Some original, s3) \<and>
                 map_of (files s3) (path original) = Some base)"
    using src
  proof
    assume "\<exists>cached. lookup scfg now1 ?ck srv = (Some cached, srv0) \<and> p = path cached"
    with base show ?thesis by blast
  next
    assume "\<exists>srvL result s2 log2 original s3.
                 lookup scfg now1 ?ck srv = (None, srvL) \<and>
                 pullFromOrigin host (originConfig scfg) now1 k (baseUrl scfg) (cm srvL, netlog srvL)
                   = Some (Inr result, s2, log2) \<and>
                 cm_get now1 (r_key result) s2 = (Some original, s3) \<and>
                 srv0 = srvL\<lparr>cm := s3, netlog := log2\<rparr> \<and> p = path original"
    then obtain srvL result s2 log2 original s3 where
      a: "lookup scfg now1 ?ck srv = (None, srvL)"
        "pullFromOrigin host (originConfig scfg) now1 k (baseUrl scfg) (cm srvL, netlog srvL)
                   = Some (Inr result, s2, log2)"
        "cm_get now1 (r_key result) s2 = (Some original, s3)"
      and b: "srv0 = srvL\<lparr>cm := s3, netlog := log2\<rparr>" "p = path original"
      by blast
    from base b have "map_of (files s3) (path original) = Some base" by simp
    with a show ?thesis by blast
  qed
  have alive: "livetime now1 (stdTTL (cm srv0)) = 0 \<or> now2 \<le> livetime now1 (stdTTL (cm srv0))"
    using assms(2) fr(2) by (auto simp: livetime_def)
  have rd: "if redisActive scfg then \<exists>x. map_of (redis srv1) ?ck = Some (x, e) else True"
    using st by (auto split: if_splits)
  have stored: "map_of (cache (cm srv1)) ?ck = Some (livetime now1 (stdTTL (cm srv0)), e)"
    "isTransformed e = Some True" "originalKey e = Some k" "contentType e = ctype" "etag e = tag"
    "\<not> isShuttingDown (cm srv1)" "key e = ?ck" "size_bytes e = length (t_buffer tr)"
    "map_of (files (cm srv1)) (path e) = Some (t_buffer tr)" "tag = Md5Hex (t_buffer tr)"
    "path e = joinPath (cacheDir (cm srv)) ?ck"
    using st out fr(3) by auto
  from cdnGet_serves_marked [OF img stored(1) alive stored(6) stored(2) rd, of host]
  have second: "\<exists>srv2. cdnGet host scfg now2 k (Some options) srv1
                      = Some (Served TRANSFORMED_HIT ctype tag (Some (t_buffer tr)), srv2) \<and>
                    transformRuns srv2 = transformRuns srv1"
    using stored(4,5,9) by simp
  have runs: "transformRuns srv1 = transformRuns srv + 1" using st fr(1) by simp
  have entry: "\<exists>t e. map_of (cache (cm srv1)) ?ck = Some (t, e) \<and>
                  key e = ?ck \<and>
                  isTransformed e = Some True \<and> originalKey e = Some k \<and>
                  contentType e = ctype \<and> etag e = tag \<and> size_bytes e = length (t_buffer tr) \<and>
                  path e = joinPath (cacheDir (cm srv)) (generateTransformKey k options) \<and>
                  map_of (files (cm srv1)) (path e) = Some (t_buffer tr) \<and>
                  (if redisActive scfg
                   then \<exists>x. map_of (redis srv1) ?ck = Some (x, e)
                   else True)"
    using stored rd by blast
  show ?thesis
    apply (rule exI [where x = base])
    apply (rule exI [where x = tr])
    using read tr runs out(1,3) stored(10) entry second
    apply (intro conjI)
    apply assumption+
    done
qed

subsection \<open>Evaluation of the examples\<close>

lemmas server_eval =
  cdnGet_def lookup_def redis_get_def redis_set_def transformAndStore_def transform_def mark_def
  truthy_def generateTransformKey_def num_param_def str_param_def decimal.simps isImageFile_def
  getFormatFromContentType_def str_or_def exampleServer_def exampleConfig_def w100_def
  exampleHost_def onlyA_def pullFromOrigin.simps generateKey_def buildOriginUrl_def
  pickContentType_def toLowerCase_def lower_char_def extname_def basename_def fetchFromOrigin.simps

text \<open>
  C5, as stated, fails. The store has capacity 100 and the transform output has 20 bytes,
  more than 10% of the capacity. The first resolution pulls the original, runs the
  Transform Engine, cannot store the output and answers 404; the second resolution does
  the same, so the Transform Engine has run twice.
\<close>

theorem oversized_output_is_transformed_twice:
  "oversizeFirst \<noteq> None \<and> fst (the oversizeFirst) = NotFound \<and>
   transformRuns (snd (the oversizeFirst)) = 1 \<and>
   oversizeSecond \<noteq> None \<and> fst (the oversizeSecond) = NotFound \<and>
   transformRuns (snd (the oversizeSecond)) = 2"
  by (simp add: oversizeSecond_def oversizeFirst_def server_eval origin_eval cm_eval)

text \<open>
  C5, an instance: \<open>a.png?w=100\<close> is resolved at time 5 from the origin, whose three bytes
  are rendered to five, and again at time 9000, within the ttl of 10 seconds.
\<close>

theorem second_resolution_witness:
  "goodFirst = Some (Served TRANSFORMED ''image/png'' (Md5Hex [1, 2, 3, 0, 0]) (Some [1, 2, 3, 0, 0]),
                     snd (the goodFirst)) \<and>
   transformRuns (snd (the goodFirst)) = 1 \<and>
   map_of (files (cm (snd (the goodFirst)))) ''cache/a.png_w100'' = Some [1, 2, 3, 0, 0] \<and>
   (\<exists>srv2. cdnGet (exampleHost onlyA 5) exampleConfig 9000 ''a.png'' (Some w100) (snd (the goodFirst))
       = Some (Served TRANSFORMED_HIT ''image/png'' (Md5Hex [1, 2, 3, 0, 0]) (Some [1, 2, 3, 0, 0]), srv2) \<and>
       transformRuns srv2 = 1)"
proof -
  have a: "cdnGet (exampleHost onlyA 5) exampleConfig 5 ''a.png'' (Some w100) (exampleServer 1000)
      = Some (Served TRANSFORMED ''image/png'' (Md5Hex [1, 2, 3, 0, 0]) (Some [1, 2, 3, 0, 0]),
              snd (the goodFirst))"
    by (simp add: goodFirst_def server_eval origin_eval cm_eval numeral_2_eq_2)
  have b: "stdTTL (cm (exampleServer 1000)) = 0 \<or> 9000 \<le> 5 + stdTTL (cm (exampleServer 1000)) * 1000"
    by (simp add: exampleServer_def cm_eval)
  have c: "transformRuns (exampleServer 1000) = 0" by (simp add: exampleServer_def)
  have d: "joinPath (cacheDir (cm (exampleServer 1000))) (generateTransformKey ''a.png'' w100)
             = ''cache/a.png_w100''"
    by (simp add: exampleServer_def server_eval cm_eval)
  from second_resolution_serves_derived_entry [OF a b]
  have "transformRuns (snd (the goodFirst)) = 1 \<and>
   map_of (files (cm (snd (the goodFirst)))) ''cache/a.png_w100'' = Some [1, 2, 3, 0, 0] \<and>
   (\<exists>srv2. cdnGet (exampleHost onlyA 5) exampleConfig 9000 ''a.png'' (Some w100) (snd (the goodFirst))
       = Some (Served TRANSFORMED_HIT ''image/png'' (Md5Hex [1, 2, 3, 0, 0]) (Some [1, 2, 3, 0, 0]), srv2) \<and>
       transformRuns srv2 = 1)"
    unfolding c d by (elim exE conjE) simp
  with a show ?thesis by (simp add: goodFirst_def)
qed

subsection \<open>A request between the stretches of a put\<close>



end
